theory Spec2Isabelle
  imports Complex_Main "HOL-Library.AList"
begin

section \<open>Data model: cells, columns and frames\<close>

text \<open>
  The pipeline works on pandas data frames. A cell is what one field of one row holds:
  the missing marker (NaN, None and NaT alike), a number (a finite float64 value, or an
  integer that float64 represents exactly, given as the rational number it is), a string,
  a timestamp (int64 nanoseconds since the epoch), a time difference (int64 nanoseconds)
  or a calendar date (days since the epoch). Arithmetic on numbers is float64 arithmetic:
  see \<open>fl64\<close> below.
\<close>

datatype cell = Null | Num rat | Str string | Time int | Delta int | Date int

datatype error =
  KeyError string | TypeError | ValueError | AttributeError | ParserError | OverflowError
  | DatabaseError

text \<open>
  A frame is stored by column, as pandas stores it: the row labels (the index) and the
  columns in order, each a label with its values. A frame is well formed when the column
  labels are distinct and every column has one value for each row label.
\<close>

record dataframe =
  index :: "nat list"
  cols :: "(string \<times> cell list) list"

definition wf_frame :: "dataframe \<Rightarrow> bool" where
  "wf_frame df \<longleftrightarrow>
     distinct (map fst (cols df)) \<and> list_all (\<lambda>cv. length (snd cv) = length (index df)) (cols df)"

definition len :: "dataframe \<Rightarrow> nat" where
  "len df = length (index df)"

text \<open>\<open>df.empty\<close>: true when either axis has length 0.\<close>

definition empty :: "dataframe \<Rightarrow> bool" where
  "empty df \<longleftrightarrow> index df = [] \<or> cols df = []"

text \<open>The cell of column \<open>c\<close> in the row at position \<open>i\<close>, if there is one.\<close>

definition cell_at :: "dataframe \<Rightarrow> string \<Rightarrow> nat \<Rightarrow> cell option" where
  "cell_at df c i =
     (case map_of (cols df) c of
        None \<Rightarrow> None
      | Some vs \<Rightarrow> if i < length vs then Some (vs ! i) else None)"

subsection \<open>Errors as values\<close>

definition bindE :: "error + 'a \<Rightarrow> ('a \<Rightarrow> error + 'b) \<Rightarrow> error + 'b" where
  "bindE m f = (case m of Inl e \<Rightarrow> Inl e | Inr x \<Rightarrow> f x)"

fun traverse :: "('a \<Rightarrow> error + 'b) \<Rightarrow> 'a list \<Rightarrow> error + 'b list" where
  "traverse f [] = Inr []"
| "traverse f (x # xs) =
     (case f x of
        Inl e \<Rightarrow> Inl e
      | Inr y \<Rightarrow> (case traverse f xs of Inl e \<Rightarrow> Inl e | Inr ys \<Rightarrow> Inr (y # ys)))"

definition zip_with_e :: "('a \<Rightarrow> 'b \<Rightarrow> error + 'c) \<Rightarrow> 'a list \<Rightarrow> 'b list \<Rightarrow> error + 'c list" where
  "zip_with_e f xs ys = traverse (\<lambda>p. f (fst p) (snd p)) (zip xs ys)"

subsection \<open>Frame operations\<close>

text \<open>\<open>df[c]\<close>, \<open>df[c] = values\<close> (in place or appended as the last column),
  \<open>df[mask]\<close>, \<open>df.iloc[i:j]\<close>, \<open>df[[c1, c2, ...]]\<close>, \<open>df.fillna(v)\<close> and
  \<open>df.rename(columns=...)\<close>.\<close>

definition getitem :: "string \<Rightarrow> dataframe \<Rightarrow> error + cell list" where
  "getitem c df = (case map_of (cols df) c of None \<Rightarrow> Inl (KeyError c) | Some vs \<Rightarrow> Inr vs)"

definition setitem :: "string \<Rightarrow> cell list \<Rightarrow> dataframe \<Rightarrow> dataframe" where
  "setitem c vs df = df\<lparr>cols := AList.update c vs (cols df)\<rparr>"

definition select :: "bool list \<Rightarrow> 'a list \<Rightarrow> 'a list" where
  "select m xs = map snd (filter fst (zip m xs))"

definition getitem_mask :: "bool list \<Rightarrow> dataframe \<Rightarrow> dataframe" where
  "getitem_mask m df =
     \<lparr>index = select m (index df), cols = map (\<lambda>cv. (fst cv, select m (snd cv))) (cols df)\<rparr>"

definition iloc :: "nat \<Rightarrow> nat \<Rightarrow> dataframe \<Rightarrow> dataframe" where
  "iloc i j df =
     \<lparr>index = take (j - i) (drop i (index df)),
      cols = map (\<lambda>cv. (fst cv, take (j - i) (drop i (snd cv)))) (cols df)\<rparr>"

definition getitem_list :: "string list \<Rightarrow> dataframe \<Rightarrow> error + dataframe" where
  "getitem_list cs df =
     bindE (traverse (\<lambda>c. bindE (getitem c df) (\<lambda>vs. Inr (c, vs))) cs)
       (\<lambda>sel. Inr \<lparr>index = index df, cols = sel\<rparr>)"

definition fillna :: "cell \<Rightarrow> dataframe \<Rightarrow> dataframe" where
  "fillna v df =
     df\<lparr>cols := map (\<lambda>cv. (fst cv, map (\<lambda>x. if x = Null then v else x) (snd cv))) (cols df)\<rparr>"

definition rename :: "(string \<times> string) list \<Rightarrow> dataframe \<Rightarrow> dataframe" where
  "rename mapping df =
     df\<lparr>cols := map (\<lambda>cv. (case map_of mapping (fst cv) of None \<Rightarrow> fst cv | Some c' \<Rightarrow> c', snd cv))
                    (cols df)\<rparr>"

subsection \<open>float64 arithmetic\<close>

text \<open>
  An arithmetic operation on float64 values returns the exact result rounded to the
  nearest float64, ties to the even significand. \<open>rint\<close> rounds a number to the nearest
  integer, ties to even (numpy's \<open>rint\<close>). For a positive \<open>x\<close>, \<open>expo x\<close> is the
  exponent \<open>e\<close> with \<open>2 powi e \<le> x < 2 powi (e + 1)\<close>, found by halving (\<open>ilog2\<close>, for
  \<open>x \<ge> 1\<close>) or by halving the inverse (\<open>clog2\<close>), and \<open>fl64 x\<close> is \<open>x\<close> rounded to 53
  significant bits. The exponent range of float64 is not modelled: there is no overflow
  to infinity and there are no subnormal numbers.
\<close>

definition rint :: "rat \<Rightarrow> int" where
  "rint x =
     (let f = \<lfloor>x\<rfloor>; d = x - of_int f
      in if d < 1 / 2 then f else if 1 / 2 < d then f + 1 else if even f then f else f + 1)"

function ilog2 :: "rat \<Rightarrow> nat" where
  "ilog2 x = (if x < 2 then 0 else Suc (ilog2 (x / 2)))"
  by pat_completeness auto
termination
proof (relation "measure (\<lambda>x. nat \<lfloor>x\<rfloor>)")
  show "wf (measure (\<lambda>x::rat. nat \<lfloor>x\<rfloor>))" by simp
next
  fix x :: rat
  assume "\<not> x < 2"
  then have x: "2 \<le> x" by simp
  have a: "of_int \<lfloor>x / 2\<rfloor> \<le> x / 2" and b: "x < of_int \<lfloor>x\<rfloor> + 1" by linarith+
  with x have "(of_int \<lfloor>x / 2\<rfloor> :: rat) < of_int \<lfloor>x\<rfloor>" by linarith
  then have "\<lfloor>x / 2\<rfloor> < \<lfloor>x\<rfloor>" by simp
  moreover from x have "0 < \<lfloor>x\<rfloor>" by simp
  ultimately show "(x / 2, x) \<in> measure (\<lambda>x. nat \<lfloor>x\<rfloor>)" by simp
qed

declare ilog2.simps [simp del]

function clog2 :: "rat \<Rightarrow> nat" where
  "clog2 y = (if y \<le> 1 then 0 else Suc (clog2 (y / 2)))"
  by pat_completeness auto
termination
proof (relation "measure (\<lambda>y. nat \<lceil>y\<rceil>)")
  show "wf (measure (\<lambda>y::rat. nat \<lceil>y\<rceil>))" by simp
next
  fix y :: rat
  assume "\<not> y \<le> 1"
  then have y: "1 < y" by simp
  then have c1: "1 < \<lceil>y\<rceil>" by (simp add: less_ceiling_iff)
  then have c: "(2::rat) \<le> of_int \<lceil>y\<rceil>" by linarith
  have a: "of_int \<lceil>y / 2\<rceil> < y / 2 + 1" and b: "y \<le> of_int \<lceil>y\<rceil>" by linarith+
  with c have "(of_int \<lceil>y / 2\<rceil> :: rat) < of_int \<lceil>y\<rceil>" by linarith
  then have "\<lceil>y / 2\<rceil> < \<lceil>y\<rceil>" by simp
  moreover from c1 have "0 < \<lceil>y\<rceil>" by simp
  ultimately show "(y / 2, y) \<in> measure (\<lambda>y. nat \<lceil>y\<rceil>)" by simp
qed

declare clog2.simps [simp del]

definition expo :: "rat \<Rightarrow> int" where
  "expo x = (if 1 \<le> x then int (ilog2 x) else - int (clog2 (1 / x)))"

definition fl64 :: "rat \<Rightarrow> rat" where
  "fl64 x =
     (if x = 0 then 0
      else let e = expo \<bar>x\<bar> - 52 in of_int (rint (x / 2 powi e)) * 2 powi e)"

subsection \<open>Column arithmetic\<close>

text \<open>
  \<open>pd.to_datetime\<close> is pandas' parser, outside the repository: it is a parameter of the
  model that says, for a cell, whether it cannot be parsed (the call raises), is missing
  (NaT), or denotes a timestamp.
\<close>

datatype parsed = Unparsable | NaT | Stamp int

definition to_datetime :: "(cell \<Rightarrow> parsed) \<Rightarrow> cell list \<Rightarrow> error + cell list" where
  "to_datetime P =
     traverse (\<lambda>x. case P x of Unparsable \<Rightarrow> Inl ParserError | NaT \<Rightarrow> Inr Null | Stamp t \<Rightarrow> Inr (Time t))"

text \<open>Comparisons with a missing value are false; comparing other kinds raises.\<close>

fun le_cell :: "cell \<Rightarrow> cell \<Rightarrow> error + bool" where
  "le_cell (Time a) (Time b) = Inr (a \<le> b)"
| "le_cell Null (Time b) = Inr False"
| "le_cell (Time a) Null = Inr False"
| "le_cell Null Null = Inr False"
| "le_cell _ _ = Inl TypeError"

fun gt_scalar :: "rat \<Rightarrow> cell \<Rightarrow> error + bool" where
  "gt_scalar k (Num q) = Inr (k < q)"
| "gt_scalar k Null = Inr False"
| "gt_scalar k _ = Inl TypeError"

definition and_mask :: "bool list \<Rightarrow> bool list \<Rightarrow> bool list" where
  "and_mask m n = map (\<lambda>p. fst p \<and> snd p) (zip m n)"

text \<open>The difference of two timestamps is an int64; pandas raises when it does not
  fit (the least int64 is NaT).\<close>

fun sub_cell :: "cell \<Rightarrow> cell \<Rightarrow> error + cell" where
  "sub_cell (Time a) (Time b) =
     (if - 9223372036854775808 < a - b \<and> a - b < 9223372036854775808
      then Inr (Delta (a - b)) else Inl OverflowError)"
| "sub_cell Null (Time b) = Inr Null"
| "sub_cell (Time a) Null = Inr Null"
| "sub_cell Null Null = Inr Null"
| "sub_cell _ _ = Inl TypeError"

text \<open>\<open>.dt.total_seconds()\<close> (pandas 2): the int64 nanoseconds, converted to float64,
  divided by \<open>10 ^ 9\<close>. \<open>/ 60\<close> is a float64 division.\<close>

fun total_seconds :: "cell \<Rightarrow> error + cell" where
  "total_seconds (Delta d) = Inr (Num (fl64 (fl64 (of_int d) / 1000000000)))"
| "total_seconds Null = Inr Null"
| "total_seconds _ = Inl AttributeError"

fun div_scalar :: "rat \<Rightarrow> cell \<Rightarrow> error + cell" where
  "div_scalar k (Num q) = Inr (Num (fl64 (q / k)))"
| "div_scalar k Null = Inr Null"
| "div_scalar k _ = Inl TypeError"

text \<open>\<open>astype(int)\<close> truncates toward zero and raises on a missing value.\<close>

definition trunc :: "rat \<Rightarrow> int" where
  "trunc q = (if 0 \<le> q then \<lfloor>q\<rfloor> else \<lceil>q\<rceil>)"

fun astype_int :: "cell \<Rightarrow> error + cell" where
  "astype_int (Num q) = Inr (Num (of_int (trunc q)))"
| "astype_int Null = Inl ValueError"
| "astype_int _ = Inl TypeError"

text \<open>
  Division of two numeric columns, in float64. A zero divisor gives no finite number
  (IEEE gives an infinity or NaN and does not raise); the model has the missing marker
  there.
\<close>

fun div_cell :: "cell \<Rightarrow> cell \<Rightarrow> error + cell" where
  "div_cell (Num a) (Num b) = Inr (if b = 0 then Null else Num (fl64 (a / b)))"
| "div_cell Null (Num b) = Inr Null"
| "div_cell (Num a) Null = Inr Null"
| "div_cell Null Null = Inr Null"
| "div_cell _ _ = Inl TypeError"

text \<open>\<open>round(2)\<close> as numpy does it: multiply by 100, \<open>rint\<close>, divide by 100, each
  step in float64.\<close>

definition round2 :: "rat \<Rightarrow> rat" where
  "round2 x = fl64 (of_int (rint (fl64 (x * 100))) / 100)"

fun round_cell :: "cell \<Rightarrow> error + cell" where
  "round_cell (Num q) = Inr (Num (round2 q))"
| "round_cell Null = Inr Null"
| "round_cell _ = Inl TypeError"

fun dt_hour :: "cell \<Rightarrow> error + cell" where
  "dt_hour (Time t) = Inr (Num (of_int ((t div 3600000000000) mod 24)))"
| "dt_hour Null = Inr Null"
| "dt_hour _ = Inl AttributeError"

fun dt_date :: "cell \<Rightarrow> error + cell" where
  "dt_date (Time t) = Inr (Date (t div 86400000000000))"
| "dt_date Null = Inr Null"
| "dt_date _ = Inl AttributeError"

section \<open>transform.py\<close>

text \<open>
  Frames are objects: a variable holds a reference, \<open>df[c] = ...\<close> changes the object the
  reference points to, and \<open>df.copy()\<close>, \<open>df[mask]\<close>, \<open>df.fillna\<close> and \<open>df.rename\<close> make
  new objects. The heap is the list of the objects made so far, a reference is a position
  in it. A function takes the reference of its argument and the heap and returns its
  result, or the exception it raises, with the heap it leaves behind.
\<close>

type_synonym addr = nat
type_synonym heap = "dataframe list"

definition transform_trip_data ::
  "(cell \<Rightarrow> parsed) \<Rightarrow> addr \<Rightarrow> heap \<Rightarrow> (error + addr) \<times> heap" where
  "transform_trip_data P df0 h0 =
    (let df = length h0; h1 = h0 @ [h0 ! df0] in
     (case bindE (getitem ''tpep_pickup_datetime'' (h1 ! df)) (to_datetime P) of
       Inl e \<Rightarrow> (Inl e, h1)
     | Inr pickup \<Rightarrow>
     (let h2 = h1[df := setitem ''tpep_pickup_datetime'' pickup (h1 ! df)] in
     (case bindE (getitem ''tpep_dropoff_datetime'' (h2 ! df)) (to_datetime P) of
       Inl e \<Rightarrow> (Inl e, h2)
     | Inr dropoff \<Rightarrow>
     (let h3 = h2[df := setitem ''tpep_dropoff_datetime'' dropoff (h2 ! df)] in
     (case bindE (getitem ''tpep_pickup_datetime'' (h3 ! df)) (\<lambda>a.
           bindE (getitem ''tpep_dropoff_datetime'' (h3 ! df)) (\<lambda>b.
           zip_with_e le_cell a b)) of
       Inl e \<Rightarrow> (Inl e, h3)
     | Inr m1 \<Rightarrow>
     (let df1 = length h3; h4 = h3 @ [getitem_mask m1 (h3 ! df)] in
     (case bindE (bindE (getitem ''fare_amount'' (h4 ! df1)) (traverse (gt_scalar 0))) (\<lambda>a.
           bindE (bindE (getitem ''trip_distance'' (h4 ! df1)) (traverse (gt_scalar 0))) (\<lambda>b.
           Inr (and_mask a b))) of
       Inl e \<Rightarrow> (Inl e, h4)
     | Inr m2 \<Rightarrow>
     (let df2 = length h4; h5 = h4 @ [getitem_mask m2 (h4 ! df1)] in
     (case bindE (getitem ''tpep_dropoff_datetime'' (h5 ! df2)) (\<lambda>a.
           bindE (getitem ''tpep_pickup_datetime'' (h5 ! df2)) (\<lambda>b.
           bindE (zip_with_e sub_cell a b) (\<lambda>d.
           bindE (traverse total_seconds d) (\<lambda>s.
           bindE (traverse (div_scalar 60) s) (traverse astype_int))))) of
       Inl e \<Rightarrow> (Inl e, h5)
     | Inr duration \<Rightarrow>
     (let h6 = h5[df2 := setitem ''trip_duration_minutes'' duration (h5 ! df2)] in
     (case bindE (getitem ''fare_amount'' (h6 ! df2)) (\<lambda>a.
           bindE (getitem ''trip_distance'' (h6 ! df2)) (\<lambda>b.
           bindE (zip_with_e div_cell a b) (traverse round_cell))) of
       Inl e \<Rightarrow> (Inl e, h6)
     | Inr cost \<Rightarrow>
     (let h7 = h6[df2 := setitem ''cost_per_mile'' cost (h6 ! df2)] in
     (case bindE (getitem ''tpep_pickup_datetime'' (h7 ! df2)) (traverse dt_hour) of
       Inl e \<Rightarrow> (Inl e, h7)
     | Inr hour \<Rightarrow>
     (let h8 = h7[df2 := setitem ''pickup_hour'' hour (h7 ! df2)] in
     (case bindE (getitem ''tpep_pickup_datetime'' (h8 ! df2)) (traverse dt_date) of
       Inl e \<Rightarrow> (Inl e, h8)
     | Inr date \<Rightarrow>
     (let h9 = h8[df2 := setitem ''pickup_date'' date (h8 ! df2)];
          df3 = length h9; h10 = h9 @ [fillna (Num 0) (h9 ! df2)]
      in (Inr df3, h10))))))))))))))))))"

definition transform_zone_data :: "addr \<Rightarrow> heap \<Rightarrow> addr \<times> heap" where
  "transform_zone_data df0 h0 =
    (let df = length h0; h1 = h0 @ [h0 ! df0];
         df1 = length h1;
         h2 = h1 @ [rename [(''LocationID'', ''location_id''), (''Borough'', ''borough''),
                            (''Zone'', ''zone_name''), (''service_zone'', ''service_zone'')]
                      (h1 ! df)]
     in (df1, h2))"

text \<open>
  \<open>validate_data\<close> reads its argument only. Its null check does nothing but print, so
  what it prints is part of the result here: the columns that hold missing values, with
  their counts.
\<close>

datatype message = Null_values_found "(string \<times> nat) list"

definition isnull_sum :: "dataframe \<Rightarrow> (string \<times> nat) list" where
  "isnull_sum df = map (\<lambda>cv. (fst cv, length (filter (\<lambda>x. x = Null) (snd cv)))) (cols df)"

definition isnull_any_any :: "dataframe \<Rightarrow> bool" where
  "isnull_any_any df = list_ex (\<lambda>cv. list_ex (\<lambda>x. x = Null) (snd cv)) (cols df)"

definition validate_data :: "dataframe \<Rightarrow> message list \<times> bool" where
  "validate_data df =
    (let issues = (if empty df then [''Dataset is empty''] else []);
         printed = (if isnull_any_any df
                    then [Null_values_found (filter (\<lambda>cn. 0 < snd cn) (isnull_sum df))]
                    else [])
     in (printed, length issues = 0))"

section \<open>load.py\<close>

text \<open>
  The store is outside the program. What the loader does to it is a sequence of write
  requests (\<open>to_sql\<close> with \<open>if_exists="append"\<close>), each one transaction: the store takes
  the whole frame or refuses it, and a refusal is raised as an exception. Whether a
  request is taken depends on what the store holds and on the request; that decision is
  the parameter \<open>ok\<close>. The engine records every request made and every request taken.
\<close>

record write_op =
  table_name :: string
  payload :: dataframe

record engine =
  attempted :: "write_op list"
  committed :: "write_op list"

definition to_sql ::
  "(write_op list \<Rightarrow> write_op \<Rightarrow> bool) \<Rightarrow> string \<Rightarrow> dataframe \<Rightarrow> engine \<Rightarrow> error option \<times> engine" where
  "to_sql ok name df e =
    (let w = \<lparr>table_name = name, payload = df\<rparr>;
         e1 = e\<lparr>attempted := attempted e @ [w]\<rparr>
     in if ok (committed e) w then (None, e1\<lparr>committed := committed e @ [w]\<rparr>)
        else (Some DatabaseError, e1))"

definition load_zones ::
  "(write_op list \<Rightarrow> write_op \<Rightarrow> bool) \<Rightarrow> dataframe \<Rightarrow> engine \<Rightarrow> error option \<times> engine" where
  "load_zones ok df_zones e = to_sql ok ''zones'' df_zones e"

text \<open>The loop \<open>for i in range(0, len(df_trips), batch_size)\<close> for a positive step,
  from position \<open>i\<close> on.\<close>

function load_trips_loop ::
  "(write_op list \<Rightarrow> write_op \<Rightarrow> bool) \<Rightarrow> dataframe \<Rightarrow> string list \<Rightarrow> nat \<Rightarrow> nat \<Rightarrow> engine
     \<Rightarrow> error option \<times> engine" where
  "load_trips_loop ok df_trips columns_to_load batch_size i e =
    (if batch_size = 0 \<or> len df_trips \<le> i then (None, e)
     else case getitem_list columns_to_load (iloc i (i + batch_size) df_trips) of
            Inl err \<Rightarrow> (Some err, e)
          | Inr batch \<Rightarrow>
              (case to_sql ok ''trips'' batch e of
                 (Some err, e') \<Rightarrow> (Some err, e')
               | (None, e') \<Rightarrow>
                   load_trips_loop ok df_trips columns_to_load batch_size (i + batch_size) e'))"
  by pat_completeness auto
termination
  by (relation "measure (\<lambda>(ok, df, cs, b, i, e). len df - i)") auto

declare load_trips_loop.simps [simp del]

text \<open>
  \<open>load_trips\<close>. The batch size is an integer, 10000 when the caller gives none.
  \<open>range\<close> raises ValueError for a step of 0 and is empty for a negative step.
\<close>

definition load_trips ::
  "(write_op list \<Rightarrow> write_op \<Rightarrow> bool) \<Rightarrow> dataframe \<Rightarrow> engine \<Rightarrow> int option \<Rightarrow> error option \<times> engine" where
  "load_trips ok df_trips e batch_size_arg =
    (let batch_size = (case batch_size_arg of None \<Rightarrow> 10000 | Some b \<Rightarrow> b);
         columns_to_load = filter (\<lambda>col. col \<noteq> ''trip_id'') (map fst (cols df_trips))
     in if batch_size = 0 then (Some ValueError, e)
        else if batch_size < 0 then (None, e)
        else load_trips_loop ok df_trips columns_to_load (nat batch_size) 0 e)"

subsection \<open>The batches as the specification has them\<close>

text \<open>
  Batch \<open>k\<close> of a load with batch size \<open>b\<close>, following the specification: a write to
  the table \<open>trips\<close> of the rows at positions \<open>k * b\<close> up to, not including,
  \<open>min ((k + 1) * b) N\<close>, in their order, without the column \<open>trip_id\<close>.
\<close>

definition spec_batch :: "dataframe \<Rightarrow> nat \<Rightarrow> nat \<Rightarrow> write_op" where
  "spec_batch df b k =
     \<lparr>table_name = ''trips'',
      payload =
        \<lparr>index = take (min (Suc k * b) (len df) - k * b) (drop (k * b) (index df)),
         cols = map (\<lambda>cv. (fst cv, take (min (Suc k * b) (len df) - k * b) (drop (k * b) (snd cv))))
                  (filter (\<lambda>cv. fst cv \<noteq> ''trip_id'') (cols df))\<rparr>\<rparr>"

text \<open>
  The requests of a list made one after the other until one is refused. It is what the
  loop of \<open>load_trips\<close> is compared with.
\<close>

fun run_writes ::
  "(write_op list \<Rightarrow> write_op \<Rightarrow> bool) \<Rightarrow> write_op list \<Rightarrow> engine \<Rightarrow> error option \<times> engine" where
  "run_writes ok [] e = (None, e)"
| "run_writes ok (w # ws) e =
     (case to_sql ok (table_name w) (payload w) e of
        (Some err, e') \<Rightarrow> (Some err, e')
      | (None, e') \<Rightarrow> run_writes ok ws e')"

section \<open>Example data\<close>

text \<open>A parser that takes timestamps as they are and the missing marker as NaT, and
  three trips: the second is dropped off before it is picked up, the third has no
  store-and-forward flag and a fare of fifty cents for 128 miles.\<close>

definition parse_stamps :: "cell \<Rightarrow> parsed" where
  "parse_stamps x = (case x of Time t \<Rightarrow> Stamp t | Null \<Rightarrow> NaT | _ \<Rightarrow> Unparsable)"

definition trips3 :: dataframe where
  "trips3 =
    \<lparr>index = [0, 1, 2],
     cols = [(''tpep_pickup_datetime'',
                [Time 1546303600000000000, Time 1546304387000000000, Time 1546305539000000000]),
             (''tpep_dropoff_datetime'',
                [Time 1546304000000000000, Time 1546300000000000000, Time 1546306500000000000]),
             (''store_and_fwd_flag'', [Str ''N'', Str ''N'', Null]),
             (''trip_distance'', [Num (3 / 2), Num (5 / 2), Num 128]),
             (''fare_amount'', [Num 7, Num 14, Num (1 / 2)])]\<rparr>"

definition trips3_out :: dataframe where
  "trips3_out =
    \<lparr>index = [0, 2],
     cols = [(''tpep_pickup_datetime'', [Time 1546303600000000000, Time 1546305539000000000]),
             (''tpep_dropoff_datetime'', [Time 1546304000000000000, Time 1546306500000000000]),
             (''store_and_fwd_flag'', [Str ''N'', Num 0]),
             (''trip_distance'', [Num (3 / 2), Num 128]),
             (''fare_amount'', [Num 7, Num (1 / 2)]),
             (''trip_duration_minutes'', [Num 6, Num 16]),
             (''cost_per_mile'', [Num (2628976282477527 / 562949953421312), Num 0]),
             (''pickup_hour'', [Num 0, Num 1]),
             (''pickup_date'', [Date 17897, Date 17897])]\<rparr>"

text \<open>
  One trip that starts a nanosecond after midnight on 2019-01-01 and ends at midnight 151
  days later, with a fare of 5.75 for 10 miles.
\<close>

definition trip151 :: dataframe where
  "trip151 =
    \<lparr>index = [0],
     cols = [(''tpep_pickup_datetime'', [Time 1546300800000000001]),
             (''tpep_dropoff_datetime'', [Time 1559347200000000000]),
             (''trip_distance'', [Num 10]),
             (''fare_amount'', [Num (23 / 4)])]\<rparr>"

definition zones2 :: dataframe where
  "zones2 =
    \<lparr>index = [0, 1],
     cols = [(''LocationID'', [Num 151, Num 239]),
             (''Borough'', [Str ''Manhattan'', Str ''Queens'']),
             (''Zone'', [Str ''Central Park'', Str ''Jamaica'']),
             (''service_zone'', [Str ''Yellow Zone'', Null])]\<rparr>"

definition no_writes :: engine where
  "no_writes = \<lparr>attempted = [], committed = []\<rparr>"

text \<open>A store that takes a write only while it holds none.\<close>

definition first_only :: "write_op list \<Rightarrow> write_op \<Rightarrow> bool" where
  "first_only ws w \<longleftrightarrow> length ws < 1"

section \<open>Lemmas about the frame operations\<close>

lemma traverse_Inr: "traverse f xs = Inr ys \<Longrightarrow> list_all2 (\<lambda>x y. f x = Inr y) xs ys"
  by (induction xs arbitrary: ys) (auto split: sum.splits)

lemma zip_with_e_Inr:
  "zip_with_e f xs ys = Inr zs \<Longrightarrow> length xs = length ys \<Longrightarrow>
     length zs = length xs \<and> (\<forall>i<length xs. f (xs ! i) (ys ! i) = Inr (zs ! i))"
  unfolding zip_with_e_def by (drule traverse_Inr) (auto simp: list_all2_conv_all_nth)

lemma select_simps [simp]:
  "select [] xs = []" "select m [] = []"
  "select (b # m) (x # xs) = (if b then x # select m xs else select m xs)"
  by (simp_all add: select_def)

lemma set_select: "set (select m xs) \<subseteq> set xs"
  by (auto simp: select_def dest: set_zip_rightD)

lemma length_select: "length m = length xs \<Longrightarrow> length (select m xs) = length (filter id m)"
  by (induction m xs rule: list_induct2) auto

lemma select_all2:
  "list_all2 R xs ys \<Longrightarrow> list_all2 R (select m xs) (select m ys)"
proof (induction m arbitrary: xs ys)
  case Nil then show ?case by simp
next
  case (Cons b m)
  then show ?case by (cases xs; cases ys) auto
qed

lemma select_all2_mask:
  "length m = length xs \<Longrightarrow> length xs = length ys \<Longrightarrow>
   (\<forall>j<length m. m ! j \<longrightarrow> R (xs ! j) (ys ! j)) \<Longrightarrow> list_all2 R (select m xs) (select m ys)"
proof (induction m xs ys rule: list_induct3)
  case Nil then show ?case by simp
next
  case (Cons b m x xs y ys)
  from Cons.prems have "\<forall>j<length m. m ! j \<longrightarrow> R (xs ! j) (ys ! j)" by fastforce
  moreover from Cons.prems have "b \<longrightarrow> R x y" by fastforce
  ultimately show ?case using Cons.IH by simp
qed

lemma select_all_mask:
  "length m = length xs \<Longrightarrow> (\<forall>j<length m. m ! j \<longrightarrow> Q (xs ! j)) \<Longrightarrow> list_all Q (select m xs)"
proof (induction m xs rule: list_induct2)
  case Nil then show ?case by simp
next
  case (Cons b m x xs)
  from Cons.prems have "\<forall>j<length m. m ! j \<longrightarrow> Q (xs ! j)" by fastforce
  moreover from Cons.prems have "b \<longrightarrow> Q x" by fastforce
  ultimately show ?case using Cons.IH by simp
qed

lemma select_all: "list_all Q xs \<Longrightarrow> list_all Q (select m xs)"
  using set_select [of m xs] by (auto simp: list_all_iff)

lemma map_of_setitem: "map_of (cols (setitem c vs df)) = (map_of (cols df))(c \<mapsto> vs)"
  by (simp add: setitem_def update_conv')

lemma index_setitem [simp]: "index (setitem c vs df) = index df"
  by (simp add: setitem_def)

lemma map_of_map_snd:
  "map_of (map (\<lambda>cv. (fst cv, f (snd cv))) al) c = map_option f (map_of al c)"
  by (induction al) auto

lemma map_of_getitem_mask:
  "map_of (cols (getitem_mask m df)) c = map_option (select m) (map_of (cols df) c)"
  by (simp add: getitem_mask_def map_of_map_snd)

lemma index_getitem_mask [simp]: "index (getitem_mask m df) = select m (index df)"
  by (simp add: getitem_mask_def)

lemma map_of_fillna:
  "map_of (cols (fillna v df)) c =
     map_option (map (\<lambda>x. if x = Null then v else x)) (map_of (cols df) c)"
  by (simp add: fillna_def map_of_map_snd)

lemma index_fillna [simp]: "index (fillna v df) = index df"
  by (simp add: fillna_def)

lemma getitem_Inr: "getitem c df = Inr vs \<longleftrightarrow> map_of (cols df) c = Some vs"
  by (simp add: getitem_def split: option.splits)

lemma bindE_Inr: "bindE m f = Inr y \<longleftrightarrow> (\<exists>x. m = Inr x \<and> f x = Inr y)"
  by (cases m) (simp_all add: bindE_def)

lemma wf_frame_length:
  "wf_frame df \<Longrightarrow> map_of (cols df) c = Some vs \<Longrightarrow> length vs = length (index df)"
  by (auto simp: wf_frame_def list_all_iff dest!: map_of_SomeD)


lemma traverse_nth:
  "traverse f xs = Inr ys \<Longrightarrow> length ys = length xs \<and> (\<forall>i<length xs. f (xs ! i) = Inr (ys ! i))"
  by (drule traverse_Inr) (auto simp: list_all2_conv_all_nth)

lemma le_cell_True: "le_cell x y = Inr True \<Longrightarrow> \<exists>a b. x = Time a \<and> y = Time b \<and> a \<le> b"
  by (cases x; cases y) auto

lemma gt_scalar_True: "gt_scalar k x = Inr True \<Longrightarrow> \<exists>q. x = Num q \<and> k < q"
  by (cases x) auto

lemma trip_structure:
  assumes "transform_trip_data P a h = (Inr r, h')"
  shows "\<exists>pickup dropoff m1 m2 duration cost hour date A B C0 C1 C2 C3 C4.
     bindE (getitem ''tpep_pickup_datetime'' (h ! a)) (to_datetime P) = Inr pickup \<and>
     bindE (getitem ''tpep_dropoff_datetime'' (setitem ''tpep_pickup_datetime'' pickup (h ! a)))
       (to_datetime P) = Inr dropoff \<and>
     A = setitem ''tpep_dropoff_datetime'' dropoff (setitem ''tpep_pickup_datetime'' pickup (h ! a)) \<and>
     bindE (getitem ''tpep_pickup_datetime'' A) (\<lambda>a.
       bindE (getitem ''tpep_dropoff_datetime'' A) (\<lambda>b. zip_with_e le_cell a b)) = Inr m1 \<and>
     B = getitem_mask m1 A \<and>
     bindE (bindE (getitem ''fare_amount'' B) (traverse (gt_scalar 0))) (\<lambda>a.
       bindE (bindE (getitem ''trip_distance'' B) (traverse (gt_scalar 0))) (\<lambda>b.
       Inr (and_mask a b))) = Inr m2 \<and>
     C0 = getitem_mask m2 B \<and>
     bindE (getitem ''tpep_dropoff_datetime'' C0) (\<lambda>a.
       bindE (getitem ''tpep_pickup_datetime'' C0) (\<lambda>b.
       bindE (zip_with_e sub_cell a b) (\<lambda>d.
       bindE (traverse total_seconds d) (\<lambda>s.
       bindE (traverse (div_scalar 60) s) (traverse astype_int))))) = Inr duration \<and>
     C1 = setitem ''trip_duration_minutes'' duration C0 \<and>
     bindE (getitem ''fare_amount'' C1) (\<lambda>a.
       bindE (getitem ''trip_distance'' C1) (\<lambda>b.
       bindE (zip_with_e div_cell a b) (traverse round_cell))) = Inr cost \<and>
     C2 = setitem ''cost_per_mile'' cost C1 \<and>
     bindE (getitem ''tpep_pickup_datetime'' C2) (traverse dt_hour) = Inr hour \<and>
     C3 = setitem ''pickup_hour'' hour C2 \<and>
     bindE (getitem ''tpep_pickup_datetime'' C3) (traverse dt_date) = Inr date \<and>
     C4 = setitem ''pickup_date'' date C3 \<and>
     h' = h @ [A, B, C4, fillna (Num 0) C4] \<and> r = length h + 3"
  using assms unfolding transform_trip_data_def Let_def
  by (auto split: sum.splits simp: nth_append list_update_append)

lemma mask1_sound:
  assumes "bindE (getitem ''tpep_pickup_datetime'' df) (\<lambda>a.
       bindE (getitem ''tpep_dropoff_datetime'' df) (\<lambda>b. zip_with_e le_cell a b)) = Inr m"
    and "map_of (cols df) ''tpep_pickup_datetime'' = Some pu"
    and "map_of (cols df) ''tpep_dropoff_datetime'' = Some dr"
    and "length pu = length dr"
  shows "length m = length pu \<and>
     (\<forall>i<length pu. m ! i \<longrightarrow> (\<exists>p d. pu ! i = Time p \<and> dr ! i = Time d \<and> p \<le> d))"
proof -
  from assms have z: "zip_with_e le_cell pu dr = Inr m"
    by (auto simp: bindE_Inr getitem_Inr)
  from zip_with_e_Inr [OF z assms(4)] show ?thesis
    by (metis le_cell_True)
qed

lemma mask2_sound:
  assumes "bindE (bindE (getitem ''fare_amount'' df) (traverse (gt_scalar 0))) (\<lambda>a.
       bindE (bindE (getitem ''trip_distance'' df) (traverse (gt_scalar 0))) (\<lambda>b.
       Inr (and_mask a b))) = Inr m"
    and "wf_frame df"
  shows "\<exists>fa di. map_of (cols df) ''fare_amount'' = Some fa \<and>
     map_of (cols df) ''trip_distance'' = Some di \<and> length m = length (index df) \<and>
     (\<forall>i<length (index df). m ! i \<longrightarrow> (\<exists>f d. fa ! i = Num f \<and> 0 < f \<and> di ! i = Num d \<and> 0 < d))"
proof -
  from assms(1) obtain fa di g1 g2 where
    fa: "map_of (cols df) ''fare_amount'' = Some fa" and g1: "traverse (gt_scalar 0) fa = Inr g1" and
    di: "map_of (cols df) ''trip_distance'' = Some di" and g2: "traverse (gt_scalar 0) di = Inr g2" and
    m: "m = and_mask g1 g2"
    by (auto simp: bindE_Inr getitem_Inr)
  have lf: "length fa = length (index df)" and ld: "length di = length (index df)"
    using wf_frame_length [OF assms(2)] fa di by auto
  from traverse_nth [OF g1] lf have n1: "length g1 = length (index df)"
    and p1: "\<forall>i<length (index df). gt_scalar 0 (fa ! i) = Inr (g1 ! i)" by auto
  from traverse_nth [OF g2] ld have n2: "length g2 = length (index df)"
    and p2: "\<forall>i<length (index df). gt_scalar 0 (di ! i) = Inr (g2 ! i)" by auto
  have lm: "length m = length (index df)" by (simp add: m and_mask_def n1 n2)
  have "\<exists>f d. fa ! i = Num f \<and> 0 < f \<and> di ! i = Num d \<and> 0 < d"
    if "i < length (index df)" "m ! i" for i
  proof -
    from that have "g1 ! i" "g2 ! i" by (auto simp: m and_mask_def n1 n2)
    with p1 p2 that(1) have "gt_scalar 0 (fa ! i) = Inr True" "gt_scalar 0 (di ! i) = Inr True"
      by auto
    then show ?thesis by (auto dest!: gt_scalar_True)
  qed
  with fa di lm show ?thesis by blast
qed

lemma duration_sound:
  assumes "bindE (getitem ''tpep_dropoff_datetime'' df) (\<lambda>a.
       bindE (getitem ''tpep_pickup_datetime'' df) (\<lambda>b.
       bindE (zip_with_e sub_cell a b) (\<lambda>d.
       bindE (traverse total_seconds d) (\<lambda>s.
       bindE (traverse (div_scalar 60) s) (traverse astype_int))))) = Inr duration"
    and "map_of (cols df) ''tpep_pickup_datetime'' = Some pu"
    and "map_of (cols df) ''tpep_dropoff_datetime'' = Some dr"
    and "length pu = length dr"
  shows "length duration = length pu \<and>
     (\<forall>i<length pu. \<forall>p d. pu ! i = Time p \<longrightarrow> dr ! i = Time d \<longrightarrow>
        duration ! i =
          Num (of_int (trunc (fl64 (fl64 (fl64 (of_int (d - p)) / 1000000000) / 60)))))"
proof -
  from assms obtain dd ss s6 where
    1: "zip_with_e sub_cell dr pu = Inr dd" and 2: "traverse total_seconds dd = Inr ss" and
    3: "traverse (div_scalar 60) ss = Inr s6" and 4: "traverse astype_int s6 = Inr duration"
    by (auto simp: bindE_Inr getitem_Inr)
  from zip_with_e_Inr [OF 1] assms(4) have l1: "length dd = length pu"
    and p1: "\<forall>i<length pu. sub_cell (dr ! i) (pu ! i) = Inr (dd ! i)" by auto
  from traverse_nth [OF 2] l1 have l2: "length ss = length pu"
    and p2: "\<forall>i<length pu. total_seconds (dd ! i) = Inr (ss ! i)" by auto
  from traverse_nth [OF 3] l2 have l3: "length s6 = length pu"
    and p3: "\<forall>i<length pu. div_scalar 60 (ss ! i) = Inr (s6 ! i)" by auto
  from traverse_nth [OF 4] l3 have l4: "length duration = length pu"
    and p4: "\<forall>i<length pu. astype_int (s6 ! i) = Inr (duration ! i)" by auto
  have "duration ! i = Num (of_int (trunc (fl64 (fl64 (fl64 (of_int (d - p)) / 1000000000) / 60))))"
    if "i < length pu" "pu ! i = Time p" "dr ! i = Time d" for i p d
  proof -
    from p1 that have "dd ! i = Delta (d - p)" by (auto split: if_splits)
    with p2 that(1) have "ss ! i = Num (fl64 (fl64 (of_int (d - p)) / 1000000000))" by auto
    with p3 that(1) have "s6 ! i = Num (fl64 (fl64 (fl64 (of_int (d - p)) / 1000000000) / 60))"
      by auto
    with p4 that(1) show ?thesis by auto
  qed
  with l4 show ?thesis by blast
qed

lemma cost_sound:
  assumes "bindE (getitem ''fare_amount'' df) (\<lambda>a.
       bindE (getitem ''trip_distance'' df) (\<lambda>b.
       bindE (zip_with_e div_cell a b) (traverse round_cell))) = Inr cost"
    and "map_of (cols df) ''fare_amount'' = Some fa"
    and "map_of (cols df) ''trip_distance'' = Some di"
    and "length fa = length di"
  shows "length cost = length fa \<and>
     (\<forall>i<length fa. \<forall>f d. fa ! i = Num f \<longrightarrow> di ! i = Num d \<longrightarrow> d \<noteq> 0 \<longrightarrow>
        cost ! i = Num (round2 (fl64 (f / d))))"
proof -
  from assms obtain q where
    1: "zip_with_e div_cell fa di = Inr q" and 2: "traverse round_cell q = Inr cost"
    by (auto simp: bindE_Inr getitem_Inr)
  from zip_with_e_Inr [OF 1] assms(4) have l1: "length q = length fa"
    and p1: "\<forall>i<length fa. div_cell (fa ! i) (di ! i) = Inr (q ! i)" by auto
  from traverse_nth [OF 2] l1 have l2: "length cost = length fa"
    and p2: "\<forall>i<length fa. round_cell (q ! i) = Inr (cost ! i)" by auto
  have "cost ! i = Num (round2 (fl64 (f / d)))"
    if "i < length fa" "fa ! i = Num f" "di ! i = Num d" "d \<noteq> 0" for i f d
  proof -
    from p1 that have "q ! i = Num (fl64 (f / d))" by auto
    with p2 that(1) show ?thesis by auto
  qed
  with l2 show ?thesis by blast
qed

lemma set_alist_update: "set (AList.update k v al) \<subseteq> insert (k, v) (set al)"
  by (induction al) auto

lemma wf_setitem:
  assumes "wf_frame df" and "length vs = length (index df)"
  shows "wf_frame (setitem c vs df)"
proof -
  have "length (snd cv) = length (index df)" if "cv \<in> set (AList.update c vs (cols df))" for cv
    using that set_alist_update [of c vs "cols df"] assms by (auto simp: wf_frame_def list_all_iff)
  with assms(1) show ?thesis
    by (simp add: wf_frame_def setitem_def distinct_update list_all_iff)
qed

lemma wf_getitem_mask:
  "wf_frame df \<Longrightarrow> length m = length (index df) \<Longrightarrow> wf_frame (getitem_mask m df)"
  unfolding wf_frame_def getitem_mask_def
  by (auto simp: list_all_iff comp_def length_select)

lemma fillna_no_null:
  "map_of (cols (fillna v df)) c = Some vs \<Longrightarrow> v \<noteq> Null \<Longrightarrow> Null \<notin> set vs"
  by (auto simp: map_of_fillna)

lemma trip_rows:
  assumes ok: "transform_trip_data P a h = (Inr r, h')" and wf: "wf_frame (h ! a)"
  shows "\<forall>i<len (h' ! r). \<exists>p d f m.
     cell_at (h' ! r) ''tpep_pickup_datetime'' i = Some (Time p) \<and>
     cell_at (h' ! r) ''tpep_dropoff_datetime'' i = Some (Time d) \<and> p \<le> d \<and>
     cell_at (h' ! r) ''fare_amount'' i = Some (Num f) \<and> 0 < f \<and>
     cell_at (h' ! r) ''trip_distance'' i = Some (Num m) \<and> 0 < m \<and>
     cell_at (h' ! r) ''trip_duration_minutes'' i =
       Some (Num (of_int (trunc (fl64 (fl64 (fl64 (of_int (d - p)) / 1000000000) / 60))))) \<and>
     cell_at (h' ! r) ''cost_per_mile'' i = Some (Num (round2 (fl64 (f / m))))"
proof -
  let ?R = "\<lambda>x y. \<exists>p d. x = Time p \<and> y = Time d \<and> p \<le> d"
  let ?pos = "\<lambda>x. \<exists>q. x = Num q \<and> (0::rat) < q"
  let ?n = "length (index (h ! a))"
  from trip_structure [OF ok] obtain pickup dropoff m1 m2 duration cost hour date A B C0 C1 C2 C3 C4
    where e1: "bindE (getitem ''tpep_pickup_datetime'' (h ! a)) (to_datetime P) = Inr pickup"
      and e2: "bindE (getitem ''tpep_dropoff_datetime'' (setitem ''tpep_pickup_datetime'' pickup (h ! a)))
                 (to_datetime P) = Inr dropoff"
      and A: "A = setitem ''tpep_dropoff_datetime'' dropoff (setitem ''tpep_pickup_datetime'' pickup (h ! a))"
      and e3: "bindE (getitem ''tpep_pickup_datetime'' A) (\<lambda>a.
                 bindE (getitem ''tpep_dropoff_datetime'' A) (\<lambda>b. zip_with_e le_cell a b)) = Inr m1"
      and B: "B = getitem_mask m1 A"
      and e4: "bindE (bindE (getitem ''fare_amount'' B) (traverse (gt_scalar 0))) (\<lambda>a.
                 bindE (bindE (getitem ''trip_distance'' B) (traverse (gt_scalar 0))) (\<lambda>b.
                 Inr (and_mask a b))) = Inr m2"
      and C0: "C0 = getitem_mask m2 B"
      and e5: "bindE (getitem ''tpep_dropoff_datetime'' C0) (\<lambda>a.
                 bindE (getitem ''tpep_pickup_datetime'' C0) (\<lambda>b.
                 bindE (zip_with_e sub_cell a b) (\<lambda>d.
                 bindE (traverse total_seconds d) (\<lambda>s.
                 bindE (traverse (div_scalar 60) s) (traverse astype_int))))) = Inr duration"
      and C1: "C1 = setitem ''trip_duration_minutes'' duration C0"
      and e6: "bindE (getitem ''fare_amount'' C1) (\<lambda>a.
                 bindE (getitem ''trip_distance'' C1) (\<lambda>b.
                 bindE (zip_with_e div_cell a b) (traverse round_cell))) = Inr cost"
      and C2: "C2 = setitem ''cost_per_mile'' cost C1"
      and C3: "C3 = setitem ''pickup_hour'' hour C2"
      and C4: "C4 = setitem ''pickup_date'' date C3"
      and h': "h' = h @ [A, B, C4, fillna (Num 0) C4]" and r: "r = length h + 3"
    by (elim exE conjE)
  \<comment> \<open>the two conversions\<close>
  from e1 obtain x where x: "map_of (cols (h ! a)) ''tpep_pickup_datetime'' = Some x"
    and tx: "to_datetime P x = Inr pickup"
    by (auto simp: bindE_Inr getitem_Inr)
  from e2 obtain y where y: "map_of (cols (h ! a)) ''tpep_dropoff_datetime'' = Some y"
    and ty: "to_datetime P y = Inr dropoff"
    by (auto simp: bindE_Inr getitem_Inr map_of_setitem)
  have lp: "length pickup = ?n"
    using traverse_nth [OF tx [unfolded to_datetime_def]] wf_frame_length [OF wf x] by simp
  have ld: "length dropoff = ?n"
    using traverse_nth [OF ty [unfolded to_datetime_def]] wf_frame_length [OF wf y] by simp
  have wfA: "wf_frame A"
    unfolding A by (intro wf_setitem wf) (simp_all add: lp ld)
  have iA: "index A = index (h ! a)" by (simp add: A)
  have A_pu: "map_of (cols A) ''tpep_pickup_datetime'' = Some pickup"
    and A_dr: "map_of (cols A) ''tpep_dropoff_datetime'' = Some dropoff"
    by (simp_all add: A map_of_setitem)
  \<comment> \<open>the first filter\<close>
  from mask1_sound [OF e3 A_pu A_dr] lp ld have lm1: "length m1 = ?n"
    and m1: "\<forall>i<?n. m1 ! i \<longrightarrow> ?R (pickup ! i) (dropoff ! i)" by auto
  have wfB: "wf_frame B"
    unfolding B by (rule wf_getitem_mask [OF wfA]) (simp add: iA lm1)
  have R1: "list_all2 ?R (select m1 pickup) (select m1 dropoff)"
    by (rule select_all2_mask) (use lm1 lp ld m1 in auto)
  \<comment> \<open>the second filter\<close>
  from mask2_sound [OF e4 wfB] obtain fa di where
    fa: "map_of (cols B) ''fare_amount'' = Some fa" and
    di: "map_of (cols B) ''trip_distance'' = Some di" and
    lm2: "length m2 = length (index B)" and
    m2: "\<forall>i<length (index B). m2 ! i \<longrightarrow> (\<exists>f d. fa ! i = Num f \<and> 0 < f \<and> di ! i = Num d \<and> 0 < d)"
    by blast
  have lfa: "length fa = length (index B)" and ldi: "length di = length (index B)"
    using wf_frame_length [OF wfB] fa di by auto
  have wfC0: "wf_frame C0"
    unfolding C0 by (rule wf_getitem_mask [OF wfB lm2])
  let ?pu = "select m2 (select m1 pickup)" and ?dr = "select m2 (select m1 dropoff)"
  let ?fa = "select m2 fa" and ?di = "select m2 di"
  have C0_pu: "map_of (cols C0) ''tpep_pickup_datetime'' = Some ?pu"
    and C0_dr: "map_of (cols C0) ''tpep_dropoff_datetime'' = Some ?dr"
    by (simp_all add: C0 B map_of_getitem_mask A_pu A_dr)
  have C0_fa: "map_of (cols C0) ''fare_amount'' = Some ?fa"
    and C0_di: "map_of (cols C0) ''trip_distance'' = Some ?di"
    by (simp_all add: C0 map_of_getitem_mask fa di)
  have R2: "list_all2 ?R ?pu ?dr" by (rule select_all2 [OF R1])
  have pfa: "list_all ?pos ?fa"
    by (rule select_all_mask) (use lm2 lfa m2 in auto)
  have pdi: "list_all ?pos ?di"
    by (rule select_all_mask) (use lm2 ldi m2 in auto)
  let ?k = "length (index C0)"
  have lens: "length ?pu = ?k" "length ?dr = ?k" "length ?fa = ?k" "length ?di = ?k"
    using wf_frame_length [OF wfC0] C0_pu C0_dr C0_fa C0_di by auto
  \<comment> \<open>the computed columns\<close>
  from duration_sound [OF e5 C0_pu C0_dr] lens have ldur: "length duration = ?k"
    and dur: "\<forall>i<?k. \<forall>p d. ?pu ! i = Time p \<longrightarrow> ?dr ! i = Time d \<longrightarrow>
        duration ! i = Num (of_int (trunc (fl64 (fl64 (fl64 (of_int (d - p)) / 1000000000) / 60))))" by auto
  have C1_fa: "map_of (cols C1) ''fare_amount'' = Some ?fa"
    and C1_di: "map_of (cols C1) ''trip_distance'' = Some ?di"
    by (simp_all add: C1 map_of_setitem C0_fa C0_di)
  from cost_sound [OF e6 C1_fa C1_di] lens have lcost: "length cost = ?k"
    and cst: "\<forall>i<?k. \<forall>f d. ?fa ! i = Num f \<longrightarrow> ?di ! i = Num d \<longrightarrow> d \<noteq> 0 \<longrightarrow>
        cost ! i = Num (round2 (fl64 (f / d)))" by auto
  \<comment> \<open>the result\<close>
  let ?fill = "map (\<lambda>x. if x = Null then Num 0 else x)"
  have D: "h' ! r = fillna (Num 0) C4" by (simp add: h' r nth_append)
  have idx: "index C4 = index C0" by (simp add: C4 C3 C2 C1)
  have D_pu: "map_of (cols (fillna (Num 0) C4)) ''tpep_pickup_datetime'' = Some (?fill ?pu)"
    and D_dr: "map_of (cols (fillna (Num 0) C4)) ''tpep_dropoff_datetime'' = Some (?fill ?dr)"
    and D_fa: "map_of (cols (fillna (Num 0) C4)) ''fare_amount'' = Some (?fill ?fa)"
    and D_di: "map_of (cols (fillna (Num 0) C4)) ''trip_distance'' = Some (?fill ?di)"
    and D_du: "map_of (cols (fillna (Num 0) C4)) ''trip_duration_minutes'' = Some (?fill duration)"
    and D_co: "map_of (cols (fillna (Num 0) C4)) ''cost_per_mile'' = Some (?fill cost)"
    by (simp_all add: map_of_fillna C4 C3 C2 C1 map_of_setitem C0_pu C0_dr C0_fa C0_di)
  show ?thesis
  proof (intro allI impI)
    fix i assume "i < len (h' ! r)"
    then have i: "i < ?k" by (simp add: len_def D idx)
    from R2 i lens obtain p d where pd: "?pu ! i = Time p" "?dr ! i = Time d" "p \<le> d"
      by (auto simp: list_all2_conv_all_nth)
    from pfa i lens obtain f where f: "?fa ! i = Num f" "0 < f"
      by (auto simp: list_all_length)
    from pdi i lens obtain m where m: "?di ! i = Num m" "0 < m"
      by (auto simp: list_all_length)
    from dur i pd have du: "duration ! i = Num (of_int (trunc (fl64 (fl64 (fl64 (of_int (d - p)) / 1000000000) / 60))))"
      by blast
    from cst i f m have co: "cost ! i = Num (round2 (fl64 (f / m)))" by auto
    show "\<exists>p d f m.
       cell_at (h' ! r) ''tpep_pickup_datetime'' i = Some (Time p) \<and>
       cell_at (h' ! r) ''tpep_dropoff_datetime'' i = Some (Time d) \<and> p \<le> d \<and>
       cell_at (h' ! r) ''fare_amount'' i = Some (Num f) \<and> 0 < f \<and>
       cell_at (h' ! r) ''trip_distance'' i = Some (Num m) \<and> 0 < m \<and>
       cell_at (h' ! r) ''trip_duration_minutes'' i =
         Some (Num (of_int (trunc (fl64 (fl64 (fl64 (of_int (d - p)) / 1000000000) / 60))))) \<and>
       cell_at (h' ! r) ''cost_per_mile'' i = Some (Num (round2 (fl64 (f / m))))"
      apply (rule exI [of _ p], rule exI [of _ d], rule exI [of _ f], rule exI [of _ m])
      using i lens ldur lcost pd f m du co
      by (simp add: cell_at_def D D_pu D_dr D_fa D_di D_du D_co)
  qed
qed

section \<open>Rounding to float64\<close>

lemma ilog2_bounds: "1 \<le> x \<Longrightarrow> 2 ^ ilog2 x \<le> x \<and> x < 2 ^ Suc (ilog2 x)"
proof (induction x rule: ilog2.induct)
  case (1 x)
  show ?case
  proof (cases "x < 2")
    case True
    with "1.prems" show ?thesis by (simp add: ilog2.simps [of x])
  next
    case False
    then have "1 \<le> x / 2" by simp
    with "1.IH" False have "2 ^ ilog2 (x / 2) \<le> x / 2 \<and> x / 2 < 2 ^ Suc (ilog2 (x / 2))" by simp
    with False show ?thesis by (simp add: ilog2.simps [of x])
  qed
qed

lemma clog2_bounds: "1 < y \<Longrightarrow> \<exists>n. clog2 y = Suc n \<and> 2 ^ n < y \<and> y \<le> 2 ^ Suc n"
proof (induction y rule: clog2.induct)
  case (1 y)
  show ?case
  proof (cases "y / 2 \<le> 1")
    case True
    then have "clog2 (y / 2) = 0" by (simp add: clog2.simps [of "y / 2"])
    with "1.prems" True show ?thesis by (simp add: clog2.simps [of y])
  next
    case False
    with "1.IH" "1.prems" obtain n where
      n: "clog2 (y / 2) = Suc n" "2 ^ n < y / 2" "y / 2 \<le> 2 ^ Suc n" by auto
    with "1.prems" show ?thesis by (simp add: clog2.simps [of y])
  qed
qed

lemma expo_bounds:
  assumes "0 < x"
  shows "2 powi expo x \<le> x \<and> x < 2 powi (expo x + 1)"
proof (cases "1 \<le> x")
  case True
  with ilog2_bounds [OF True] show ?thesis
    by (simp add: expo_def power_int_add_1)
next
  case False
  with assms have "1 < 1 / x" by simp
  from clog2_bounds [OF this] obtain n where
    n: "clog2 (1 / x) = Suc n" "2 ^ n < 1 / x" "1 / x \<le> 2 ^ Suc n" by blast
  from n(2) assms have 1: "x < 1 / 2 ^ n" by (simp add: field_simps)
  from n(3) assms have 2: "1 / 2 ^ Suc n \<le> x" by (simp add: field_simps)
  have 3: "(2::rat) powi (- int (Suc n)) = 1 / 2 ^ Suc n"
    by (simp only: power_int_minus_divide power_int_of_nat)
  have 4: "(2::rat) powi (- int (Suc n) + 1) = 1 / 2 ^ n"
  proof -
    have "- int (Suc n) + 1 = - int n" by simp
    then show ?thesis by (simp only: power_int_minus_divide power_int_of_nat)
  qed
  from False 1 2 show ?thesis by (simp only: expo_def n(1) 3 4 if_False simp_thms)
qed

lemma expo_mono:
  assumes "0 < x" and "x \<le> y"
  shows "expo x \<le> expo y"
proof (rule ccontr)
  assume "\<not> expo x \<le> expo y"
  then have "expo y + 1 \<le> expo x" by simp
  then have "(2::rat) powi (expo y + 1) \<le> 2 powi expo x" by (rule power_int_increasing) simp
  with expo_bounds [OF assms(1)] expo_bounds [of y] assms show False by simp
qed

lemma rint_bounds: "\<bar>of_int (rint x) - x\<bar> \<le> 1 / 2"
proof -
  define f where "f = \<lfloor>x\<rfloor>"
  have 1: "of_int f \<le> x" and 2: "x < of_int f + 1" unfolding f_def by linarith+
  show ?thesis
    unfolding rint_def Let_def f_def [symmetric] using 1 2 by (auto simp: abs_le_iff)
qed

lemma rint_of_int [simp]: "rint (of_int n) = n"
  by (simp add: rint_def)

lemma rint_range: "\<lfloor>x\<rfloor> \<le> rint x \<and> rint x \<le> \<lfloor>x\<rfloor> + 1"
  by (simp add: rint_def Let_def)

lemma rint_mono: "x \<le> y \<Longrightarrow> rint x \<le> rint y"
proof -
  assume le: "x \<le> y"
  then have f: "\<lfloor>x\<rfloor> \<le> \<lfloor>y\<rfloor>" by (rule floor_mono)
  show ?thesis
  proof (cases "\<lfloor>x\<rfloor> = \<lfloor>y\<rfloor>")
    case True
    with le show ?thesis by (auto simp: rint_def Let_def)
  next
    case False
    with f have "\<lfloor>x\<rfloor> + 1 \<le> \<lfloor>y\<rfloor>" by simp
    with rint_range [of x] rint_range [of y] show ?thesis by linarith
  qed
qed

lemma rint_nonneg: "0 \<le> x \<Longrightarrow> 0 \<le> rint x"
  by (auto simp: rint_def Let_def)

lemma rint_le_half: "0 \<le> x \<Longrightarrow> x \<le> 1 / 2 \<Longrightarrow> rint x = 0"
proof -
  assume a: "0 \<le> x" "x \<le> 1 / 2"
  then have "\<lfloor>x\<rfloor> = 0" by (simp add: floor_eq_iff)
  with a show ?thesis by (simp add: rint_def Let_def)
qed

text \<open>The unit in the last place of the binade of x.\<close>

lemma fl64_parts:
  assumes "0 < x"
  defines "w \<equiv> 2 powi (expo x - 52)"
  shows "0 < w" and "fl64 x = of_int (rint (x / w)) * w"
    and "4503599627370496 * w \<le> x" and "x < 9007199254740992 * w"
    and "4503599627370496 * w = 2 powi expo x" and "9007199254740992 * w = 2 powi (expo x + 1)"
proof -
  show "0 < w" by (simp add: w_def)
  from assms(1) show "fl64 x = of_int (rint (x / w)) * w"
    by (simp add: fl64_def w_def Let_def)
  have p: "(2::rat) powi expo x = 4503599627370496 * w"
    by (simp add: w_def power_int_diff)
  have q: "(2::rat) powi (expo x + 1) = 9007199254740992 * w"
    by (simp add: w_def power_int_diff power_int_add_1)
  from expo_bounds [OF assms(1)] p q
  show "4503599627370496 * w \<le> x" and "x < 9007199254740992 * w" by simp_all
  from p q show "4503599627370496 * w = 2 powi expo x" "9007199254740992 * w = 2 powi (expo x + 1)"
    by simp_all
qed

lemma fl64_scaled:
  assumes "0 < x"
  shows "4503599627370496 \<le> rint (x / 2 powi (expo x - 52)) \<and>
         rint (x / 2 powi (expo x - 52)) \<le> 9007199254740992"
proof -
  note p = fl64_parts [OF assms]
  let ?w = "(2::rat) powi (expo x - 52)"
  from p(1,3) have "(4503599627370496::rat) \<le> x / ?w" by (simp add: pos_le_divide_eq)
  then have "rint (of_int 4503599627370496) \<le> rint (x / ?w)" by (intro rint_mono) simp
  moreover from p(1,4) have "x / ?w \<le> 9007199254740992" by (simp add: pos_divide_le_eq)
  then have "rint (x / ?w) \<le> rint (of_int 9007199254740992)" by (intro rint_mono) simp
  ultimately show ?thesis by (simp only: rint_of_int)
qed

lemma fl64_zero [simp]: "fl64 0 = 0"
  by (simp add: fl64_def)

lemma fl64_binade:
  assumes "0 < x"
  shows "2 powi expo x \<le> fl64 x \<and> fl64 x \<le> 2 powi (expo x + 1)"
proof -
  note p = fl64_parts [OF assms]
  let ?w = "(2::rat) powi (expo x - 52)"
  let ?r = "rint (x / ?w)"
  from fl64_scaled [OF assms] have "(4503599627370496::rat) \<le> of_int ?r" "(of_int ?r :: rat) \<le> 9007199254740992"
    by linarith+
  with p(1) have "4503599627370496 * ?w \<le> of_int ?r * ?w" "of_int ?r * ?w \<le> 9007199254740992 * ?w"
    by (simp_all add: mult_right_mono)
  with p(2,5,6) show ?thesis by simp
qed

lemma fl64_pos: "0 < x \<Longrightarrow> 0 < fl64 x"
  using fl64_binade [of x] zero_less_power_int [of "2::rat" "expo x"] by linarith

lemma fl64_nonneg: "0 \<le> x \<Longrightarrow> 0 \<le> fl64 x"
  using fl64_pos [of x] by (cases "x = 0") auto

lemma fl64_error:
  assumes "0 < x"
  shows "\<bar>fl64 x - x\<bar> \<le> x / 9007199254740992"
proof -
  note p = fl64_parts [OF assms]
  let ?w = "(2::rat) powi (expo x - 52)"
  let ?r = "of_int (rint (x / ?w)) :: rat"
  have "fl64 x - x = (?r - x / ?w) * ?w" using p(1,2) by (simp add: algebra_simps)
  then have "\<bar>fl64 x - x\<bar> = \<bar>?r - x / ?w\<bar> * ?w" using p(1) by (simp add: abs_mult)
  also have "\<dots> \<le> 1 / 2 * ?w" using rint_bounds [of "x / ?w"] p(1) by (intro mult_right_mono) simp_all
  also have "\<dots> \<le> x / 9007199254740992" using p(3) by simp
  finally show ?thesis .
qed

lemma fl64_mono:
  assumes "0 < x" and "x \<le> y"
  shows "fl64 x \<le> fl64 y"
proof -
  from assms have y: "0 < y" by simp
  from expo_mono [OF assms] have e: "expo x \<le> expo y" .
  show ?thesis
  proof (cases "expo x = expo y")
    case True
    let ?w = "(2::rat) powi (expo x - 52)"
    have w: "0 < ?w" by simp
    from assms(2) w have "x / ?w \<le> y / ?w" by (simp add: divide_right_mono)
    then have "rint (x / ?w) \<le> rint (y / ?w)" by (rule rint_mono)
    then have "(of_int (rint (x / ?w)) :: rat) * ?w \<le> of_int (rint (y / ?w)) * ?w"
      using w by (intro mult_right_mono) simp_all
    with fl64_parts(2) [OF assms(1)] fl64_parts(2) [OF y] True show ?thesis by simp
  next
    case False
    with e have "expo x + 1 \<le> expo y" by simp
    then have "(2::rat) powi (expo x + 1) \<le> 2 powi expo y" by (rule power_int_increasing) simp
    with fl64_binade [OF assms(1)] fl64_binade [OF y] show ?thesis by linarith
  qed
qed



lemma trunc_nonneg: "0 \<le> q \<Longrightarrow> trunc q = \<lfloor>q\<rfloor>"
  by (simp add: trunc_def)

section \<open>Whole minutes and two decimals in float64\<close>





lemma round2_nonneg: "0 \<le> x \<Longrightarrow> 0 \<le> round2 x"
  by (simp add: round2_def fl64_nonneg rint_nonneg)

lemma fl64_half: "fl64 (fl64 (1 / 200) * 100) = 1 / 2"
  by code_simp

lemma cost_small:
  assumes "0 < q" and "q < 1 / 200"
  shows "round2 (fl64 q) = 0"
proof -
  from assms have "fl64 q \<le> fl64 (1 / 200)" by (intro fl64_mono) simp_all
  then have 1: "fl64 q * 100 \<le> fl64 (1 / 200) * 100" by simp
  from fl64_pos [OF assms(1)] have 2: "0 < fl64 q * 100" by simp
  from fl64_mono [OF 2 1] have "fl64 (fl64 q * 100) \<le> 1 / 2" by (simp only: fl64_half)
  moreover from 2 have "0 \<le> fl64 (fl64 q * 100)" by (intro fl64_nonneg) simp
  ultimately have "rint (fl64 (fl64 q * 100)) = 0" by (intro rint_le_half)
  then show ?thesis by (simp add: round2_def)
qed

lemma hundredths_close:
  assumes "0 < q"
  defines "k \<equiv> rint (fl64 (fl64 q * 100))"
  shows "\<bar>of_int k / 100 - q\<bar> \<le> 1 / 200 + q / 2251799813685248"
    and "\<bar>fl64 (of_int k / 100) - of_int k / 100\<bar> \<le> of_int k / 100 / 9007199254740992"
proof -
  define a where "a = fl64 q"
  define b where "b = fl64 (a * 100)"
  have a: "0 < a" unfolding a_def using assms(1) by (rule fl64_pos)
  then have a100: "0 < a * 100" by simp
  have kb: "k = rint b" unfolding k_def a_def b_def ..
  from fl64_error [OF assms(1)]
  have ea: "a - q \<le> q / 9007199254740992 \<and> - (a - q) \<le> q / 9007199254740992"
    unfolding a_def abs_le_iff .
  from fl64_error [OF a100]
  have eb: "b - a * 100 \<le> a * 100 / 9007199254740992 \<and>
      - (b - a * 100) \<le> a * 100 / 9007199254740992"
    unfolding b_def abs_le_iff .
  from rint_bounds [of b]
  have ek: "of_int k - b \<le> 1 / 2 \<and> - (of_int k - b) \<le> 1 / 2"
    unfolding kb abs_le_iff .
  from ea assms(1) have a2: "a \<le> 2 * q" by linarith
  with eb have eb': "b - a * 100 \<le> q * 200 / 9007199254740992 \<and>
      - (b - a * 100) \<le> q * 200 / 9007199254740992" by linarith
  from ea eb' ek have "of_int k - 100 * q \<le> 1 / 2 + q * 300 / 9007199254740992 \<and>
      - (of_int k - 100 * q) \<le> 1 / 2 + q * 300 / 9007199254740992" by linarith
  with assms(1) have "of_int k / 100 - q \<le> 1 / 200 + q / 2251799813685248 \<and>
      - (of_int k / 100 - q) \<le> 1 / 200 + q / 2251799813685248" by linarith
  then show "\<bar>of_int k / 100 - q\<bar> \<le> 1 / 200 + q / 2251799813685248"
    unfolding abs_le_iff .
  have "0 \<le> b" unfolding b_def using a100 by (intro fl64_nonneg) simp
  then have "0 \<le> k" unfolding kb by (rule rint_nonneg)
  show "\<bar>fl64 (of_int k / 100) - of_int k / 100\<bar> \<le> of_int k / 100 / 9007199254740992"
  proof (cases "k = 0")
    case True
    then show ?thesis by simp
  next
    case False
    with \<open>0 \<le> k\<close> have "(0::rat) < of_int k / 100" by simp
    then show ?thesis by (rule fl64_error)
  qed
qed

section \<open>The example run\<close>

lemma trips3_run:
  "fst (transform_trip_data parse_stamps 0 [trips3]) = Inr 4 \<and>
   snd (transform_trip_data parse_stamps 0 [trips3]) ! 4 = trips3_out"
  by code_simp

lemma trips3_ok:
  "transform_trip_data parse_stamps 0 [trips3] =
     (Inr 4, snd (transform_trip_data parse_stamps 0 [trips3]))"
  by (simp add: prod_eq_iff trips3_run)

lemma trips3_wf: "wf_frame ([trips3] ! 0)"
  by code_simp

lemma trips3_len: "len (snd (transform_trip_data parse_stamps 0 [trips3]) ! 4) = 2"
  using trips3_run by (simp add: len_def trips3_out_def)

lemma trips3_cells:
  "cell_at trips3 ''store_and_fwd_flag'' 0 = Some (Str ''N'') \<and>
   cell_at trips3 ''store_and_fwd_flag'' 2 = Some Null \<and>
   cell_at trips3_out ''store_and_fwd_flag'' 1 = Some (Num 0) \<and>
   cell_at trips3_out ''tpep_pickup_datetime'' 0 = Some (Time 1546303600000000000) \<and>
   cell_at trips3_out ''tpep_dropoff_datetime'' 0 = Some (Time 1546304000000000000) \<and>
   cell_at trips3_out ''fare_amount'' 0 = Some (Num 7) \<and>
   cell_at trips3_out ''trip_distance'' 0 = Some (Num (3 / 2)) \<and>
   cell_at trips3_out ''fare_amount'' 1 = Some (Num (1 / 2)) \<and>
   cell_at trips3_out ''trip_distance'' 1 = Some (Num 128) \<and>
   cell_at trips3_out ''cost_per_mile'' 1 = Some (Num 0)"
  by code_simp

lemma trip151_run:
  "cell_at trip151 ''tpep_pickup_datetime'' 0 = Some (Time 1546300800000000001) \<and>
   cell_at trip151 ''tpep_dropoff_datetime'' 0 = Some (Time 1559347200000000000) \<and>
   cell_at trip151 ''fare_amount'' 0 = Some (Num (23 / 4)) \<and>
   cell_at trip151 ''trip_distance'' 0 = Some (Num 10) \<and>
   fst (transform_trip_data parse_stamps 0 [trip151]) = Inr 4 \<and>
   cell_at (snd (transform_trip_data parse_stamps 0 [trip151]) ! 4) ''trip_duration_minutes'' 0 = Some (Num 217440) \<and>
   cell_at (snd (transform_trip_data parse_stamps 0 [trip151]) ! 4) ''cost_per_mile'' 0 =
     Some (Num (5134103575202365 / 9007199254740992))"
  by code_simp

lemma trips3_validate:
  "isnull_any_any trips3 \<and> \<not> empty trips3 \<and> cols trips3 \<noteq> [] \<and> 0 < len trips3"
  by code_simp

lemma zones2_run: "fst (transform_zone_data 0 [zones2]) = 2"
  by code_simp

lemma cell_at_fillna:
  "cell_at (fillna v df) c i = map_option (\<lambda>x. if x = Null then v else x) (cell_at df c i)"
  by (simp add: cell_at_def map_of_fillna split: option.splits)

lemma cell_at_fillna_no_null: "v \<noteq> Null \<Longrightarrow> cell_at (fillna v df) c i \<noteq> Some Null"
  by (auto simp: cell_at_fillna)

lemma trip_result_filled:
  assumes "transform_trip_data P a h = (Inr r, h')"
  shows "h' ! r = fillna (Num 0) (h' ! (r - 1))"
proof -
  from trip_structure [OF assms] obtain A B C4 where
    "h' = h @ [A, B, C4, fillna (Num 0) C4]" "r = length h + 3" by blast
  then show ?thesis by (simp add: nth_append)
qed

lemma transform_trip_data_frame: "take (length h0) (snd (transform_trip_data P df0 h0)) = h0"
  by (simp add: transform_trip_data_def Let_def split: sum.splits)

lemma transform_zone_data_frame: "take (length h0) (snd (transform_zone_data df0 h0)) = h0"
  by (simp add: transform_zone_data_def Let_def)

section \<open>The trip transformer\<close>

text \<open>
  Claim C1. Whatever frame \<open>transform_trip_data\<close> is given, every row of the frame it
  returns has a pickup timestamp that is not after its dropoff timestamp, a fare above
  zero and a distance above zero.
\<close>

theorem transform_trip_data_rows_valid:
  assumes "a < length h" and "wf_frame (h ! a)" and "transform_trip_data P a h = (Inr r, h')"
  shows "\<forall>i<len (h' ! r). \<exists>p d f m.
     cell_at (h' ! r) ''tpep_pickup_datetime'' i = Some (Time p) \<and>
     cell_at (h' ! r) ''tpep_dropoff_datetime'' i = Some (Time d) \<and> p \<le> d \<and>
     cell_at (h' ! r) ''fare_amount'' i = Some (Num f) \<and> 0 < f \<and>
     cell_at (h' ! r) ''trip_distance'' i = Some (Num m) \<and> 0 < m"
proof (intro allI impI)
  fix i assume "i < len (h' ! r)"
  with trip_rows [OF assms(3,2)] obtain p d f m where
    "cell_at (h' ! r) ''tpep_pickup_datetime'' i = Some (Time p)"
    "cell_at (h' ! r) ''tpep_dropoff_datetime'' i = Some (Time d)" "p \<le> d"
    "cell_at (h' ! r) ''fare_amount'' i = Some (Num f)" "0 < f"
    "cell_at (h' ! r) ''trip_distance'' i = Some (Num m)" "0 < m"
    by blast
  then show "\<exists>p d f m.
     cell_at (h' ! r) ''tpep_pickup_datetime'' i = Some (Time p) \<and>
     cell_at (h' ! r) ''tpep_dropoff_datetime'' i = Some (Time d) \<and> p \<le> d \<and>
     cell_at (h' ! r) ''fare_amount'' i = Some (Num f) \<and> 0 < f \<and>
     cell_at (h' ! r) ''trip_distance'' i = Some (Num m) \<and> 0 < m"
    by blast
qed

theorem transform_trip_data_rows_valid_witness:
  "(0::nat) < length [trips3] \<and> wf_frame ([trips3] ! 0) \<and>
   transform_trip_data parse_stamps 0 [trips3] =
     (Inr 4, snd (transform_trip_data parse_stamps 0 [trips3])) \<and>
   (\<exists>p d f m.
     cell_at (snd (transform_trip_data parse_stamps 0 [trips3]) ! 4) ''tpep_pickup_datetime'' 0 = Some (Time p) \<and>
     cell_at (snd (transform_trip_data parse_stamps 0 [trips3]) ! 4) ''tpep_dropoff_datetime'' 0 = Some (Time d) \<and> p \<le> d \<and>
     cell_at (snd (transform_trip_data parse_stamps 0 [trips3]) ! 4) ''fare_amount'' 0 = Some (Num f) \<and> 0 < f \<and>
     cell_at (snd (transform_trip_data parse_stamps 0 [trips3]) ! 4) ''trip_distance'' 0 = Some (Num m) \<and> 0 < m) \<and>
   (\<exists>p d f m.
     cell_at (snd (transform_trip_data parse_stamps 0 [trips3]) ! 4) ''tpep_pickup_datetime'' 1 = Some (Time p) \<and>
     cell_at (snd (transform_trip_data parse_stamps 0 [trips3]) ! 4) ''tpep_dropoff_datetime'' 1 = Some (Time d) \<and> p \<le> d \<and>
     cell_at (snd (transform_trip_data parse_stamps 0 [trips3]) ! 4) ''fare_amount'' 1 = Some (Num f) \<and> 0 < f \<and>
     cell_at (snd (transform_trip_data parse_stamps 0 [trips3]) ! 4) ''trip_distance'' 1 = Some (Num m) \<and> 0 < m)"
proof -
  have l: "(0::nat) < length [trips3]" by simp
  have n: "0 < len (snd (transform_trip_data parse_stamps 0 [trips3]) ! 4)" "1 < len (snd (transform_trip_data parse_stamps 0 [trips3]) ! 4)"
    by (simp_all add: trips3_len)
  note rows = transform_trip_data_rows_valid [OF l trips3_wf trips3_ok, rule_format]
  from rows [OF n(1)] rows [OF n(2)] l trips3_wf trips3_ok show ?thesis by blast
qed




text \<open>
  Claim C3 says that \<open>cost_per_mile\<close> is the fare divided by the distance, rounded to
  two decimal digits. The code divides in float64 and rounds as numpy does. For a fare of
  5.75 and a distance of 10 the quotient 0.575 becomes a float64 just below it, which
  rounds down: the code returns the float64 next to 0.57, more than 0.005 away from the
  quotient, where rounding the quotient gives 0.58.
\<close>

theorem cost_per_mile_tie_counterexample:
  "cell_at trip151 ''fare_amount'' 0 = Some (Num (23 / 4)) \<and>
   cell_at trip151 ''trip_distance'' 0 = Some (Num 10) \<and>
   fst (transform_trip_data parse_stamps 0 [trip151]) = Inr 4 \<and>
   cell_at (snd (transform_trip_data parse_stamps 0 [trip151]) ! 4) ''cost_per_mile'' 0 =
     Some (Num (5134103575202365 / 9007199254740992)) \<and>
   (1 / 200 :: rat) < \<bar>5134103575202365 / 9007199254740992 - 23 / 4 / 10\<bar> \<and>
   (5134103575202365 / 9007199254740992 :: rat) \<noteq> 58 / 100 \<and>
   (5134103575202365 / 9007199254740992 :: rat) \<noteq> 57 / 100"
  using trip151_run by simp

text \<open>
  Claim C3, amended. In every row that \<open>transform_trip_data\<close> returns the distance is
  above zero, so the division is defined, and for a quotient below \<open>2 ^ 1000\<close>
  \<open>cost_per_mile\<close> is the float64 nearest to \<open>k / 100\<close>, where \<open>k\<close> is the integer
  that numpy's rounding finds from the float64 quotient; \<open>k / 100\<close> is within
  \<open>0.005 + q / 2 ^ 51\<close> of the quotient \<open>q\<close>. It need not be the multiple of 0.01
  nearest to the quotient, nor a multiple of 0.01.
\<close>

theorem cost_per_mile_float_rounded:
  assumes "a < length h" and "wf_frame (h ! a)" and "transform_trip_data P a h = (Inr r, h')"
  shows "\<forall>i<len (h' ! r). \<exists>f m k.
     cell_at (h' ! r) ''fare_amount'' i = Some (Num f) \<and>
     cell_at (h' ! r) ''trip_distance'' i = Some (Num m) \<and> 0 < m \<and>
     k = rint (fl64 (fl64 (f / m) * 100)) \<and>
     (f / m < 2 ^ 1000 \<longrightarrow>
        cell_at (h' ! r) ''cost_per_mile'' i = Some (Num (fl64 (of_int k / 100))) \<and>
        \<bar>of_int k / 100 - f / m\<bar> \<le> 1 / 200 + f / m / 2251799813685248 \<and>
        \<bar>fl64 (of_int k / 100) - of_int k / 100\<bar> \<le> of_int k / 100 / 9007199254740992)"
proof (intro allI impI)
  fix i assume "i < len (h' ! r)"
  with trip_rows [OF assms(3,2)] obtain f m where
    1: "cell_at (h' ! r) ''fare_amount'' i = Some (Num f)" "0 < f"
       "cell_at (h' ! r) ''trip_distance'' i = Some (Num m)" "0 < m"
       "cell_at (h' ! r) ''cost_per_mile'' i = Some (Num (round2 (fl64 (f / m))))"
    by blast
  then have q: "0 < f / m" by simp
  define k where "k = rint (fl64 (fl64 (f / m) * 100))"
  from 1(5) have c: "cell_at (h' ! r) ''cost_per_mile'' i = Some (Num (fl64 (of_int k / 100)))"
    by (simp add: round2_def k_def)
  from hundredths_close [OF q]
  have b: "\<bar>of_int k / 100 - f / m\<bar> \<le> 1 / 200 + f / m / 2251799813685248"
    "\<bar>fl64 (of_int k / 100) - of_int k / 100\<bar> \<le> of_int k / 100 / 9007199254740992"
    unfolding k_def by blast+
  from 1(1,3,4) c b k_def
  show "\<exists>f m k.
     cell_at (h' ! r) ''fare_amount'' i = Some (Num f) \<and>
     cell_at (h' ! r) ''trip_distance'' i = Some (Num m) \<and> 0 < m \<and>
     k = rint (fl64 (fl64 (f / m) * 100)) \<and>
     (f / m < 2 ^ 1000 \<longrightarrow>
        cell_at (h' ! r) ''cost_per_mile'' i = Some (Num (fl64 (of_int k / 100))) \<and>
        \<bar>of_int k / 100 - f / m\<bar> \<le> 1 / 200 + f / m / 2251799813685248 \<and>
        \<bar>fl64 (of_int k / 100) - of_int k / 100\<bar> \<le> of_int k / 100 / 9007199254740992)"
    by (intro exI [of _ f] exI [of _ m] exI [of _ k]) blast
qed

theorem cost_per_mile_float_rounded_witness:
  "(0::nat) < length [trips3] \<and> wf_frame ([trips3] ! 0) \<and>
   transform_trip_data parse_stamps 0 [trips3] =
     (Inr 4, snd (transform_trip_data parse_stamps 0 [trips3])) \<and>
   (7 / (3 / 2) :: rat) < 2 ^ 1000 \<and>
   cell_at (snd (transform_trip_data parse_stamps 0 [trips3]) ! 4) ''cost_per_mile'' 0 =
     Some (Num (fl64 (of_int (rint (fl64 (fl64 (7 / (3 / 2)) * 100))) / 100))) \<and>
   \<bar>of_int (rint (fl64 (fl64 (7 / (3 / 2)) * 100))) / 100 - 7 / (3 / 2) :: rat\<bar> \<le>
     1 / 200 + 7 / (3 / 2) / 2251799813685248"
proof -
  have l: "(0::nat) < length [trips3]" by simp
  have n: "0 < len (snd (transform_trip_data parse_stamps 0 [trips3]) ! 4)" by (simp add: trips3_len)
  have c: "cell_at (snd (transform_trip_data parse_stamps 0 [trips3]) ! 4) ''fare_amount'' 0 = Some (Num 7)"
    "cell_at (snd (transform_trip_data parse_stamps 0 [trips3]) ! 4) ''trip_distance'' 0 = Some (Num (3 / 2))"
    using trips3_run trips3_cells by simp_all
  from cost_per_mile_float_rounded [OF l trips3_wf trips3_ok, rule_format, OF n]
  obtain f m k where fm: "cell_at (snd (transform_trip_data parse_stamps 0 [trips3]) ! 4) ''fare_amount'' 0 = Some (Num f)"
      "cell_at (snd (transform_trip_data parse_stamps 0 [trips3]) ! 4) ''trip_distance'' 0 = Some (Num m)"
    and k: "k = rint (fl64 (fl64 (f / m) * 100))"
    and imp: "f / m < 2 ^ 1000 \<longrightarrow>
        cell_at (snd (transform_trip_data parse_stamps 0 [trips3]) ! 4) ''cost_per_mile'' 0 = Some (Num (fl64 (of_int k / 100))) \<and>
        \<bar>of_int k / 100 - f / m\<bar> \<le> 1 / 200 + f / m / 2251799813685248 \<and>
        \<bar>fl64 (of_int k / 100) - of_int k / 100\<bar> \<le> of_int k / 100 / 9007199254740992"
    by blast
  from fm c have f: "f = 7" and m: "m = 3 / 2" by simp_all
  have h: "(7 / (3 / 2) :: rat) < 2 ^ 1000" by simp
  from imp [unfolded k f m] h l trips3_wf trips3_ok show ?thesis by blast
qed

text \<open>
  Claim C10. In every row that \<open>transform_trip_data\<close> returns, \<open>cost_per_mile\<close> is
  not negative. It need not be positive: it is 0 whenever the fare divided by the distance
  is below 0.005, although fare and distance are both above zero. The third example trip
  (fifty cents for 128 miles) is such a row.
\<close>

theorem cost_per_mile_nonneg:
  assumes "a < length h" and "wf_frame (h ! a)" and "transform_trip_data P a h = (Inr r, h')"
  shows "\<forall>i<len (h' ! r). \<exists>f m c.
     cell_at (h' ! r) ''fare_amount'' i = Some (Num f) \<and> 0 < f \<and>
     cell_at (h' ! r) ''trip_distance'' i = Some (Num m) \<and> 0 < m \<and>
     cell_at (h' ! r) ''cost_per_mile'' i = Some (Num c) \<and> 0 \<le> c \<and>
     (f / m < 5 / 1000 \<longrightarrow> c = 0)"
proof (intro allI impI)
  fix i assume "i < len (h' ! r)"
  with trip_rows [OF assms(3,2)] obtain f m where
    1: "cell_at (h' ! r) ''fare_amount'' i = Some (Num f)" "0 < f"
       "cell_at (h' ! r) ''trip_distance'' i = Some (Num m)" "0 < m"
       "cell_at (h' ! r) ''cost_per_mile'' i = Some (Num (round2 (fl64 (f / m))))"
    by blast
  then have q: "0 < f / m" by simp
  then have "0 \<le> fl64 (f / m)" by (intro fl64_nonneg) simp
  then have n: "0 \<le> round2 (fl64 (f / m))" by (rule round2_nonneg)
  have s: "f / m < 5 / 1000 \<longrightarrow> round2 (fl64 (f / m)) = 0"
    using cost_small [OF q] by simp
  from 1 n s
  show "\<exists>f m c.
     cell_at (h' ! r) ''fare_amount'' i = Some (Num f) \<and> 0 < f \<and>
     cell_at (h' ! r) ''trip_distance'' i = Some (Num m) \<and> 0 < m \<and>
     cell_at (h' ! r) ''cost_per_mile'' i = Some (Num c) \<and> 0 \<le> c \<and>
     (f / m < 5 / 1000 \<longrightarrow> c = 0)"
    by (intro exI [of _ f] exI [of _ m] exI [of _ "round2 (fl64 (f / m))"]) (simp only: simp_thms)
qed

theorem cost_per_mile_nonneg_witness:
  "(0::nat) < length [trips3] \<and> wf_frame ([trips3] ! 0) \<and>
   transform_trip_data parse_stamps 0 [trips3] =
     (Inr 4, snd (transform_trip_data parse_stamps 0 [trips3])) \<and>
   (\<exists>f m c.
     cell_at (snd (transform_trip_data parse_stamps 0 [trips3]) ! 4) ''fare_amount'' 0 = Some (Num f) \<and> 0 < f \<and>
     cell_at (snd (transform_trip_data parse_stamps 0 [trips3]) ! 4) ''trip_distance'' 0 = Some (Num m) \<and> 0 < m \<and>
     cell_at (snd (transform_trip_data parse_stamps 0 [trips3]) ! 4) ''cost_per_mile'' 0 = Some (Num c) \<and> 0 \<le> c \<and>
     (f / m < 5 / 1000 \<longrightarrow> c = 0)) \<and>
   (\<exists>f m c.
     cell_at (snd (transform_trip_data parse_stamps 0 [trips3]) ! 4) ''fare_amount'' 1 = Some (Num f) \<and> 0 < f \<and>
     cell_at (snd (transform_trip_data parse_stamps 0 [trips3]) ! 4) ''trip_distance'' 1 = Some (Num m) \<and> 0 < m \<and>
     cell_at (snd (transform_trip_data parse_stamps 0 [trips3]) ! 4) ''cost_per_mile'' 1 = Some (Num c) \<and> 0 \<le> c \<and>
     (f / m < 5 / 1000 \<longrightarrow> c = 0)) \<and>
   cell_at (snd (transform_trip_data parse_stamps 0 [trips3]) ! 4) ''fare_amount'' 1 = Some (Num (1 / 2)) \<and>
   cell_at (snd (transform_trip_data parse_stamps 0 [trips3]) ! 4) ''cost_per_mile'' 1 = Some (Num 0)"
proof -
  have l: "(0::nat) < length [trips3]" by simp
  have z: "cell_at (snd (transform_trip_data parse_stamps 0 [trips3]) ! 4) ''fare_amount'' 1 = Some (Num (1 / 2))"
    "cell_at (snd (transform_trip_data parse_stamps 0 [trips3]) ! 4) ''cost_per_mile'' 1 = Some (Num 0)"
    using trips3_run trips3_cells by simp_all
  have n: "0 < len (snd (transform_trip_data parse_stamps 0 [trips3]) ! 4)" "1 < len (snd (transform_trip_data parse_stamps 0 [trips3]) ! 4)"
    by (simp_all add: trips3_len)
  note rows = cost_per_mile_nonneg [OF l trips3_wf trips3_ok, rule_format]
  from rows [OF n(1)] rows [OF n(2)] l trips3_wf trips3_ok z show ?thesis by blast
qed

text \<open>
  Claim C4 says that no field of a returned row is missing, a missing number being
  replaced by zero and a missing string by the empty string. The first half holds. The
  second does not: \<open>fillna(0)\<close> puts the number 0 in every column. In the example the
  third trip has no store-and-forward flag, a column of strings, and comes out with the
  number 0 there.
\<close>

theorem fillna_string_column_counterexample:
  "cell_at trips3 ''store_and_fwd_flag'' 0 = Some (Str ''N'') \<and>
   cell_at trips3 ''store_and_fwd_flag'' 2 = Some Null \<and>
   fst (transform_trip_data parse_stamps 0 [trips3]) = Inr 4 \<and>
   cell_at (snd (transform_trip_data parse_stamps 0 [trips3]) ! 4) ''store_and_fwd_flag'' 1 = Some (Num 0) \<and>
   cell_at (snd (transform_trip_data parse_stamps 0 [trips3]) ! 4) ''store_and_fwd_flag'' 1 \<noteq> Some (Str [])"
  using trips3_run trips3_cells by simp

text \<open>
  Claim C4, amended. No field of a returned row is missing: the returned frame is the
  frame built before the last step (the object just before it on the heap) with every
  missing value replaced by the number 0, whatever its column holds otherwise, and every
  other value kept.
\<close>

theorem transform_trip_data_fills_zero:
  assumes "a < length h" and "transform_trip_data P a h = (Inr r, h')"
  shows "\<forall>c i. cell_at (h' ! r) c i \<noteq> Some Null \<and>
     cell_at (h' ! r) c i =
       map_option (\<lambda>x. if x = Null then Num 0 else x) (cell_at (h' ! (r - 1)) c i)"
  using trip_result_filled [OF assms(2)] by (simp add: cell_at_fillna_no_null cell_at_fillna)

theorem transform_trip_data_fills_zero_witness:
  "(0::nat) < length [trips3] \<and>
   transform_trip_data parse_stamps 0 [trips3] =
     (Inr 4, snd (transform_trip_data parse_stamps 0 [trips3])) \<and>
   (\<forall>c i. cell_at (snd (transform_trip_data parse_stamps 0 [trips3]) ! 4) c i \<noteq> Some Null \<and>
     cell_at (snd (transform_trip_data parse_stamps 0 [trips3]) ! 4) c i =
       map_option (\<lambda>x. if x = Null then Num 0 else x)
         (cell_at (snd (transform_trip_data parse_stamps 0 [trips3]) ! (4 - 1)) c i))"
proof -
  have l: "(0::nat) < length [trips3]" by simp
  from transform_trip_data_fills_zero [OF l trips3_ok] l trips3_ok show ?thesis by blast
qed

text \<open>
  Claim C9. Neither transformer changes the frame it is given: after the call, also one
  that raises, the argument and every other object that was on the heap are as before.
  Both work on a copy.
\<close>

theorem transforms_keep_input:
  assumes "df0 < length h0"
  shows "snd (transform_trip_data P df0 h0) ! df0 = h0 ! df0 \<and>
     take (length h0) (snd (transform_trip_data P df0 h0)) = h0 \<and>
     snd (transform_zone_data df0 h0) ! df0 = h0 ! df0 \<and>
     take (length h0) (snd (transform_zone_data df0 h0)) = h0"
proof -
  have "snd (transform_trip_data P df0 h0) ! df0 =
      take (length h0) (snd (transform_trip_data P df0 h0)) ! df0"
    using assms by simp
  moreover have "snd (transform_zone_data df0 h0) ! df0 =
      take (length h0) (snd (transform_zone_data df0 h0)) ! df0"
    using assms by simp
  ultimately show ?thesis
    by (simp add: transform_trip_data_frame transform_zone_data_frame)
qed

theorem transforms_keep_input_witness:
  "(0::nat) < length [trips3] \<and>
   snd (transform_trip_data parse_stamps 0 [trips3]) ! 0 = trips3 \<and>
   take (length [trips3]) (snd (transform_trip_data parse_stamps 0 [trips3])) = [trips3] \<and>
   snd (transform_zone_data 0 [trips3]) ! 0 = trips3 \<and>
   take (length [trips3]) (snd (transform_zone_data 0 [trips3])) = [trips3]"
  using transforms_keep_input [of 0 "[trips3]" parse_stamps] by simp

section \<open>The zone transformer\<close>

text \<open>
  Claim C8. \<open>transform_zone_data\<close> renames the columns \<open>LocationID\<close>, \<open>Borough\<close>,
  \<open>Zone\<close> and \<open>service_zone\<close> to \<open>location_id\<close>, \<open>borough\<close>, \<open>zone_name\<close> and
  \<open>service_zone\<close> and leaves every other label as it is; the rows, their order and
  every value are those of the input. Nothing is filtered or checked.
\<close>

theorem transform_zone_data_renames:
  assumes "df0 < length h0" and "transform_zone_data df0 h0 = (r, h)"
  shows "index (h ! r) = index (h0 ! df0) \<and>
     map snd (cols (h ! r)) = map snd (cols (h0 ! df0)) \<and>
     map fst (cols (h ! r)) =
       map (\<lambda>c. if c = ''LocationID'' then ''location_id''
                else if c = ''Borough'' then ''borough''
                else if c = ''Zone'' then ''zone_name''
                else if c = ''service_zone'' then ''service_zone''
                else c) (map fst (cols (h0 ! df0)))"
  using assms by (auto simp: transform_zone_data_def Let_def nth_append rename_def)

theorem transform_zone_data_renames_witness:
  "(0::nat) < length [zones2] \<and>
   transform_zone_data 0 [zones2] = (2, snd (transform_zone_data 0 [zones2])) \<and>
   index (snd (transform_zone_data 0 [zones2]) ! 2) = [0, 1] \<and>
   map snd (cols (snd (transform_zone_data 0 [zones2]) ! 2)) = map snd (cols zones2) \<and>
   map fst (cols (snd (transform_zone_data 0 [zones2]) ! 2)) =
     [''location_id'', ''borough'', ''zone_name'', ''service_zone'']"
proof -
  have l: "(0::nat) < length [zones2]" by simp
  have ok: "transform_zone_data 0 [zones2] = (2, snd (transform_zone_data 0 [zones2]))"
    by (simp add: prod_eq_iff zones2_run)
  from transform_zone_data_renames [OF l ok] l ok show ?thesis by (simp add: zones2_def)
qed

section \<open>The validator\<close>

text \<open>
  Claim C5. \<open>validate_data\<close> returns false for an empty frame and true for every other
  frame, whether or not it holds missing values: these are printed and change nothing.
  A frame is empty, as \<open>df.empty\<close> has it, when it has no rows or no columns; with at
  least one column that is to have no rows.
\<close>

theorem validate_data_result:
  "snd (validate_data df) = (\<not> empty df) \<and>
   (fst (validate_data df) = [] \<longleftrightarrow> \<not> isnull_any_any df) \<and>
   (cols df \<noteq> [] \<longrightarrow> snd (validate_data df) = (0 < len df))"
  by (auto simp: validate_data_def Let_def empty_def len_def)

theorem validate_data_result_witness:
  "cols trips3 \<noteq> [] \<and> 0 < len trips3 \<and> isnull_any_any trips3 \<and>
   snd (validate_data trips3) \<and> fst (validate_data trips3) \<noteq> []"
  using validate_data_result [of trips3] trips3_validate by simp

section \<open>The batch loader\<close>

lemma batch_count: "0 < b \<Longrightarrow> k < (n + b - 1) div b \<longleftrightarrow> k * b < (n::nat)"
proof -
  assume b: "0 < b"
  have "k < (n + b - 1) div b \<longleftrightarrow> Suc k \<le> (n + b - 1) div b" by (simp add: Suc_le_eq)
  also have "\<dots> \<longleftrightarrow> Suc k * b \<le> n + b - 1" by (rule less_eq_div_iff_mult_less_eq [OF b])
  also have "\<dots> \<longleftrightarrow> k * b < n" using b by auto
  finally show ?thesis .
qed

lemma take_within: "length xs = n \<Longrightarrow> take (min (b + i) n - i) (drop i xs) = take b (drop i xs)"
  by (cases "b + i \<le> n") (simp_all add: min_def)

lemma traverse_lookup:
  "distinct (map fst (cols g)) \<Longrightarrow> set xs \<subseteq> set (cols g) \<Longrightarrow>
   traverse (\<lambda>c. bindE (getitem c g) (\<lambda>vs. Inr (c, vs))) (filter p (map fst xs)) =
     Inr (filter (\<lambda>cv. p (fst cv)) xs)"
  by (induction xs) (auto simp: getitem_def bindE_def)

lemma getitem_list_filter:
  "distinct (map fst (cols g)) \<Longrightarrow>
   getitem_list (filter p (map fst (cols g))) g =
     Inr \<lparr>index = index g, cols = filter (\<lambda>cv. p (fst cv)) (cols g)\<rparr>"
proof -
  assume "distinct (map fst (cols g))"
  then have "traverse (\<lambda>c. bindE (getitem c g) (\<lambda>vs. Inr (c, vs))) (filter p (map fst (cols g))) =
     Inr (filter (\<lambda>cv. p (fst cv)) (cols g))"
    by (rule traverse_lookup) simp
  then show ?thesis by (simp add: getitem_list_def bindE_def)
qed

lemma write_op_eta [simp]: "\<lparr>table_name = table_name w, payload = payload w\<rparr> = w"
  by (cases w) simp

lemma batch_payload:
  assumes wf: "wf_frame df" and b: "0 < b"
  shows "getitem_list (filter (\<lambda>c. c \<noteq> ''trip_id'') (map fst (cols df))) (iloc (k * b) (k * b + b) df) =
     Inr (payload (spec_batch df b k))"
proof -
  let ?g = "iloc (k * b) (k * b + b) df"
  have keys: "map fst (cols ?g) = map fst (cols df)" by (simp add: iloc_def comp_def)
  with wf have d: "distinct (map fst (cols ?g))" by (simp add: wf_frame_def)
  have ix: "index ?g = take (min (Suc k * b) (len df) - k * b) (drop (k * b) (index df))"
    by (simp add: iloc_def len_def take_within)
  have cs: "filter (\<lambda>cv. fst cv \<noteq> ''trip_id'') (cols ?g) =
      map (\<lambda>cv. (fst cv, take (min (Suc k * b) (len df) - k * b) (drop (k * b) (snd cv))))
        (filter (\<lambda>cv. fst cv \<noteq> ''trip_id'') (cols df))"
    using wf by (auto simp: iloc_def filter_map comp_def len_def wf_frame_def list_all_iff take_within)
  from getitem_list_filter [OF d, of "\<lambda>c. c \<noteq> ''trip_id''"] keys ix cs show ?thesis
    by (simp add: spec_batch_def)
qed

lemma load_trips_loop_run:
  assumes wf: "wf_frame df" and b: "0 < b"
  shows "load_trips_loop ok df (filter (\<lambda>c. c \<noteq> ''trip_id'') (map fst (cols df))) b (k * b) e =
     run_writes ok (map (spec_batch df b) [k..<(len df + b - 1) div b]) e"
proof (induction "(len df + b - 1) div b - k" arbitrary: k e)
  case 0
  then have "\<not> k < (len df + b - 1) div b" by simp
  with batch_count [OF b] have "len df \<le> k * b" by (simp add: not_less)
  with 0 show ?case by (subst load_trips_loop.simps) simp
next
  case (Suc n)
  then have k: "k < (len df + b - 1) div b" by simp
  with batch_count [OF b] have lt: "k * b < len df" by simp
  from Suc have n: "n = (len df + b - 1) div b - Suc k" by simp
  have t: "table_name (spec_batch df b k) = ''trips''" by (simp add: spec_batch_def)
  from Suc.hyps(1) [OF n] have ih: "\<And>e. load_trips_loop ok df (filter (\<lambda>c. c \<noteq> ''trip_id'') (map fst (cols df))) b (k * b + b) e =
     run_writes ok (map (spec_batch df b) [Suc k..<(len df + b - 1) div b]) e"
    by (simp add: add.commute)
  have u: "map (spec_batch df b) [k..<(len df + b - 1) div b] =
      spec_batch df b k # map (spec_batch df b) [Suc k..<(len df + b - 1) div b]"
    using k by (simp add: upt_conv_Cons)
  have "load_trips_loop ok df (filter (\<lambda>c. c \<noteq> ''trip_id'') (map fst (cols df))) b (k * b) e =
      (case to_sql ok ''trips'' (payload (spec_batch df b k)) e of
         (Some err, e') \<Rightarrow> (Some err, e')
       | (None, e') \<Rightarrow>
           run_writes ok (map (spec_batch df b) [Suc k..<(len df + b - 1) div b]) e')"
    using lt b
    by (subst load_trips_loop.simps)
       (simp add: batch_payload [OF wf b] ih split: prod.splits option.splits)
  then show ?case by (simp only: u run_writes.simps t)
qed

lemma run_writes_accepted:
  "\<forall>k<length ws. ok (committed e @ take k ws) (ws ! k) \<Longrightarrow>
   run_writes ok ws e = (None, e\<lparr>attempted := attempted e @ ws, committed := committed e @ ws\<rparr>)"
proof (induction ws arbitrary: e)
  case Nil
  then show ?case by simp
next
  case (Cons w ws)
  let ?e = "e\<lparr>attempted := attempted e @ [w], committed := committed e @ [w]\<rparr>"
  from Cons.prems have ok0: "ok (committed e) w" by fastforce
  have "\<forall>k<length ws. ok (committed ?e @ take k ws) (ws ! k)"
  proof (intro allI impI)
    fix k assume "k < length ws"
    then have "Suc k < length (w # ws)" by simp
    with Cons.prems have "ok (committed e @ take (Suc k) (w # ws)) ((w # ws) ! Suc k)" by blast
    then show "ok (committed ?e @ take k ws) (ws ! k)" by simp
  qed
  from Cons.IH [OF this] ok0 show ?case by (simp add: to_sql_def Let_def)
qed

lemma run_writes_refused:
  "k < length ws \<Longrightarrow> \<forall>j<k. ok (committed e @ take j ws) (ws ! j) \<Longrightarrow>
   \<not> ok (committed e @ take k ws) (ws ! k) \<Longrightarrow>
   run_writes ok ws e =
     (Some DatabaseError, e\<lparr>attempted := attempted e @ take (Suc k) ws, committed := committed e @ take k ws\<rparr>)"
proof (induction ws arbitrary: k e)
  case Nil
  then show ?case by simp
next
  case (Cons w ws)
  show ?case
  proof (cases k)
    case 0
    with Cons.prems show ?thesis by (simp add: to_sql_def Let_def)
  next
    case (Suc k')
    let ?e = "e\<lparr>attempted := attempted e @ [w], committed := committed e @ [w]\<rparr>"
    from Cons.prems Suc have ok0: "ok (committed e) w" by fastforce
    from Cons.prems Suc have 1: "k' < length ws" by simp
    have 2: "\<forall>j<k'. ok (committed ?e @ take j ws) (ws ! j)"
    proof (intro allI impI)
      fix j assume "j < k'"
      with Suc have "Suc j < k" by simp
      with Cons.prems(2) have "ok (committed e @ take (Suc j) (w # ws)) ((w # ws) ! Suc j)" by blast
      then show "ok (committed ?e @ take j ws) (ws ! j)" by simp
    qed
    from Cons.prems(3) Suc have 3: "\<not> ok (committed ?e @ take k' ws) (ws ! k')" by simp
    from Cons.IH [OF 1 2 3] ok0 Suc show ?thesis by (simp add: to_sql_def Let_def)
  qed
qed

lemma load_trips_run:
  assumes "wf_frame df" and "1 \<le> b"
  shows "load_trips ok df e (Some (int b)) =
     run_writes ok (map (spec_batch df b) [0..<(len df + b - 1) div b]) e"
  using load_trips_loop_run [OF assms(1), of b ok 0 e] assms(2)
  by (simp add: load_trips_def Let_def)

lemma spec_batch_len:
  "wf_frame df \<Longrightarrow> len (payload (spec_batch df b k)) = min (Suc k * b) (len df) - k * b"
  by (auto simp: spec_batch_def len_def min_def)

lemma trips3_load:
  "wf_frame trips3 \<and> (len trips3 + 2 - 1) div 2 = 2 \<and>
   fst (load_trips (\<lambda>ws w. True) trips3 no_writes (Some 2)) = None \<and>
   map (\<lambda>w. index (payload w)) (attempted (snd (load_trips (\<lambda>ws w. True) trips3 no_writes (Some 2)))) =
     [[0, 1], [2]] \<and>
   first_only [] (spec_batch trips3 2 0) \<and> \<not> first_only [spec_batch trips3 2 0] (spec_batch trips3 2 1) \<and>
   index (payload (spec_batch trips3 2 0)) = [0, 1] \<and>
   index (payload (spec_batch trips3 2 1)) = [2]"
  by code_simp

text \<open>
  Claim C6. For a frame of \<open>N\<close> rows and a batch size \<open>b\<close> of at least 1, and a store
  that takes every batch, \<open>load_trips\<close> returns normally after \<open>(N + b - 1) div b\<close>
  writes, that is \<open>N / b\<close> rounded up; write \<open>k\<close> holds the rows at positions \<open>k * b\<close>
  up to \<open>min ((k + 1) * b) N\<close> in their order, \<open>b\<close> rows in every write but possibly
  the last, which has the rest. With \<open>b = 1\<close> these are \<open>N\<close> writes of one row.
  Without a batch size the loader takes 10000.
\<close>

theorem load_trips_batches:
  assumes "wf_frame df" and "1 \<le> b"
    and "\<forall>k<(len df + b - 1) div b.
           ok (committed e @ map (spec_batch df b) [0..<k]) (spec_batch df b k)"
  shows "load_trips ok df e (Some (int b)) =
       (None, e\<lparr>attempted := attempted e @ map (spec_batch df b) [0..<(len df + b - 1) div b],
                 committed := committed e @ map (spec_batch df b) [0..<(len df + b - 1) div b]\<rparr>) \<and>
     length (map (spec_batch df b) [0..<(len df + b - 1) div b]) = (len df + b - 1) div b \<and>
     (\<forall>k<(len df + b - 1) div b.
        0 < len (payload (spec_batch df b k)) \<and>
        len (payload (spec_batch df b k)) =
          (if Suc k < (len df + b - 1) div b then b else len df - k * b)) \<and>
     (b = 1 \<longrightarrow> (len df + b - 1) div b = len df) \<and>
     load_trips ok df e None = load_trips ok df e (Some 10000)"
proof -
  from assms(2) have b: "0 < b" by simp
  let ?ws = "map (spec_batch df b) [0..<(len df + b - 1) div b]"
  have "\<forall>k<length ?ws. ok (committed e @ take k ?ws) (?ws ! k)"
  proof (intro allI impI)
    fix k assume "k < length ?ws"
    then have k: "k < (len df + b - 1) div b" by simp
    with assms(3) have "ok (committed e @ map (spec_batch df b) [0..<k]) (spec_batch df b k)"
      by blast
    with k show "ok (committed e @ take k ?ws) (?ws ! k)" by (simp add: take_map)
  qed
  from run_writes_accepted [OF this]
  have c1: "load_trips ok df e (Some (int b)) =
      (None, e\<lparr>attempted := attempted e @ ?ws, committed := committed e @ ?ws\<rparr>)"
    by (simp only: load_trips_run [OF assms(1,2)])
  have 2: "0 < len (payload (spec_batch df b k)) \<and>
        len (payload (spec_batch df b k)) =
          (if Suc k < (len df + b - 1) div b then b else len df - k * b)"
    if "k < (len df + b - 1) div b" for k
  proof -
    from that batch_count [OF b] have lt: "k * b < len df" by simp
    show ?thesis
    proof (cases "Suc k < (len df + b - 1) div b")
      case True
      with batch_count [OF b, of "Suc k" "len df"] have "Suc k * b < len df" by simp
      with True b show ?thesis by (simp add: spec_batch_len [OF assms(1)])
    next
      case False
      with batch_count [OF b, of "Suc k" "len df"] have "len df \<le> Suc k * b" by (simp add: not_less)
      with False lt show ?thesis by (simp add: spec_batch_len [OF assms(1)] min_def)
    qed
  qed
  have c3: "length ?ws = (len df + b - 1) div b" by simp
  have c4: "\<forall>k<(len df + b - 1) div b.
        0 < len (payload (spec_batch df b k)) \<and>
        len (payload (spec_batch df b k)) =
          (if Suc k < (len df + b - 1) div b then b else len df - k * b)"
    using 2 by blast
  have c5: "b = 1 \<longrightarrow> (len df + b - 1) div b = len df" by simp
  have c6: "load_trips ok df e None = load_trips ok df e (Some 10000)"
    by (simp add: load_trips_def)
  from c1 c3 c4 c5 c6 show ?thesis by blast
qed

theorem load_trips_batches_witness:
  "wf_frame trips3 \<and> (1::nat) \<le> 2 \<and>
   load_trips (\<lambda>ws w. True) trips3 no_writes (Some 2) =
     (None, no_writes\<lparr>attempted := [spec_batch trips3 2 0, spec_batch trips3 2 1],
                       committed := [spec_batch trips3 2 0, spec_batch trips3 2 1]\<rparr>) \<and>
   index (payload (spec_batch trips3 2 0)) = [0, 1] \<and>
   index (payload (spec_batch trips3 2 1)) = [2]"
  using load_trips_batches [of trips3 2 "\<lambda>ws w. True" no_writes] trips3_load
  by (simp add: no_writes_def upt_conv_Cons)

text \<open>
  Claim C7. When the store refuses batch \<open>k\<close>, having taken the batches before it,
  \<open>load_trips\<close> raises the error: the batches before \<open>k\<close> stay committed, batch \<open>k\<close>
  has been requested once and is the last request made.
\<close>

theorem load_trips_failure:
  assumes "wf_frame df" and "1 \<le> b" and "k < (len df + b - 1) div b"
    and "\<forall>j<k. ok (committed e @ map (spec_batch df b) [0..<j]) (spec_batch df b j)"
    and "\<not> ok (committed e @ map (spec_batch df b) [0..<k]) (spec_batch df b k)"
  shows "load_trips ok df e (Some (int b)) =
     (Some DatabaseError,
      e\<lparr>attempted := attempted e @ map (spec_batch df b) [0..<Suc k],
        committed := committed e @ map (spec_batch df b) [0..<k]\<rparr>)"
proof -
  let ?n = "(len df + b - 1) div b"
  let ?ws = "map (spec_batch df b) [0..<?n]"
  have 1: "k < length ?ws" using assms(3) by simp
  have 2: "\<forall>j<k. ok (committed e @ take j ?ws) (?ws ! j)"
  proof (intro allI impI)
    fix j assume "j < k"
    with assms(3,4) show "ok (committed e @ take j ?ws) (?ws ! j)" by (simp add: take_map)
  qed
  have 3: "\<not> ok (committed e @ take k ?ws) (?ws ! k)"
    using assms(3,5) by (simp add: take_map)
  have 4: "take (Suc k) ?ws = map (spec_batch df b) [0..<Suc k]"
    using assms(3) by (simp add: take_map del: upt_Suc)
  have 5: "take k ?ws = map (spec_batch df b) [0..<k]"
    using assms(3) by (simp add: take_map)
  from run_writes_refused [OF 1 2 3] show ?thesis
    unfolding 4 5 by (simp only: load_trips_run [OF assms(1,2)])
qed

theorem load_trips_failure_witness:
  "wf_frame trips3 \<and> (1::nat) \<le> 2 \<and> (1::nat) < (len trips3 + 2 - 1) div 2 \<and>
   first_only (committed no_writes) (spec_batch trips3 2 0) \<and>
   \<not> first_only (committed no_writes @ [spec_batch trips3 2 0]) (spec_batch trips3 2 1) \<and>
   load_trips first_only trips3 no_writes (Some 2) =
     (Some DatabaseError,
      no_writes\<lparr>attempted := [spec_batch trips3 2 0, spec_batch trips3 2 1],
        committed := [spec_batch trips3 2 0]\<rparr>)"
  using load_trips_failure [of trips3 2 1 first_only no_writes] trips3_load
  by (simp add: no_writes_def upt_conv_Cons)

end
